theory Spec2Isabelle
  imports Complex_Main "HOL-Library.Word" "HOL-Library.Log_Nat" "HOL-Library.Finite_Map"
    "HOL-Library.Sublist" "HOL-Library.Char_ord" "HOL-Library.List_Lexorder"
begin

section \<open>Python strings\<close>

text \<open>
  A Python \<open>str\<close> is modelled as a \<open>string\<close> (a list of 8-bit characters), so the model
  covers the code points below 256. The helpers below are the string methods the
  repository calls, restricted to those code points.
\<close>

fun str_nat :: "nat \<Rightarrow> string" where
  "str_nat n = (if n < 10 then [char_of (48 + n)]
                else str_nat (n div 10) @ [char_of (48 + n mod 10)])"

text \<open>\<open>str(i)\<close> for a Python int.\<close>

definition str_int :: "int \<Rightarrow> string" where
  "str_int i = (if i < 0 then CHR ''-'' # str_nat (nat (- i)) else str_nat (nat i))"

text \<open>\<open>sep.join(xs)\<close>.\<close>

fun join :: "string \<Rightarrow> string list \<Rightarrow> string" where
  "join sep [] = []"
| "join sep [x] = x"
| "join sep (x # y # ys) = x @ sep @ join sep (y # ys)"

text \<open>\<open>c.isspace()\<close>: tab to carriage return, the separators 28 to 31, space, NEL, NBSP.\<close>

definition is_space :: "char \<Rightarrow> bool" where
  "is_space c = (let n = (of_char c :: nat) in
     (9 \<le> n \<and> n \<le> 13) \<or> (28 \<le> n \<and> n \<le> 32) \<or> n = 133 \<or> n = 160)"

text \<open>\<open>s.strip()\<close>.\<close>

definition strip :: "string \<Rightarrow> string" where
  "strip s = rev (dropWhile is_space (rev (dropWhile is_space s)))"

text \<open>\<open>s.lower()\<close>: the capital letters of ASCII and of Latin-1.\<close>

definition lower_char :: "char \<Rightarrow> char" where
  "lower_char c = (let n = (of_char c :: nat) in
     if (65 \<le> n \<and> n \<le> 90) \<or> (192 \<le> n \<and> n \<le> 222 \<and> n \<noteq> 215)
     then char_of (n + 32) else c)"

definition lower :: "string \<Rightarrow> string" where
  "lower s = map lower_char s"

text \<open>\<open>s.startswith(p)\<close>.\<close>

definition startswith :: "string \<Rightarrow> string \<Rightarrow> bool" where
  "startswith s p = (take (length p) s = p)"

text \<open>\<open>a or b or c\<close> on strings: the first that is not empty, else the last.\<close>

fun first_truthy :: "string list \<Rightarrow> string" where
  "first_truthy [] = []"
| "first_truthy [x] = x"
| "first_truthy (x # y # ys) = (if x \<noteq> [] then x else first_truthy (y # ys))"

text \<open>
  \<open>s.splitlines()\<close>: a line ends at LF, CR, CR LF, VT, FF, FS, GS, RS or NEL; the line
  ends are dropped, and no empty last line is produced.
\<close>

definition is_linebreak :: "char \<Rightarrow> bool" where
  "is_linebreak c = (let n = (of_char c :: nat) in
     (10 \<le> n \<and> n \<le> 13) \<or> (28 \<le> n \<and> n \<le> 30) \<or> n = 133)"

fun splitlines_from :: "string \<Rightarrow> string \<Rightarrow> string list" where
  "splitlines_from cur [] = (if cur = [] then [] else [cur])"
| "splitlines_from cur [c] = (if is_linebreak c then [cur] else [cur @ [c]])"
| "splitlines_from cur (c # d # cs) =
     (if c = CHR 0x0D \<and> d = CHR 0x0A then cur # splitlines_from [] cs
      else if is_linebreak c then cur # splitlines_from [] (d # cs)
      else splitlines_from (cur @ [c]) (d # cs))"

definition splitlines :: "string \<Rightarrow> string list" where
  "splitlines s = splitlines_from [] s"

text \<open>\<open>s.split(":", 1)[1]\<close>, for an \<open>s\<close> that has a colon: what follows the first one.\<close>

definition after_colon :: "string \<Rightarrow> string" where
  "after_colon s = tl (dropWhile (\<lambda>c. c \<noteq> CHR '':'') s)"

text \<open>
  \<open>int(s)\<close> on a string: surrounding whitespace is dropped, then an optional sign and
  decimal digits, where single underscores may stand between digits. \<open>None\<close> is
  \<open>ValueError\<close>.
\<close>

definition is_digit :: "char \<Rightarrow> bool" where
  "is_digit c = (let n = (of_char c :: nat) in 48 \<le> n \<and> n \<le> 57)"

fun digits_ok :: "string \<Rightarrow> bool" where
  "digits_ok [] = False"
| "digits_ok [c] = is_digit c"
| "digits_ok (c # d # cs) =
     (is_digit c \<and> (if d = CHR ''_'' then digits_ok cs else digits_ok (d # cs)))"

definition digits_value :: "string \<Rightarrow> nat" where
  "digits_value s = foldl (\<lambda>acc c. 10 * acc + (of_char c - 48)) 0 (filter is_digit s)"

definition py_int :: "string \<Rightarrow> int option" where
  "py_int s0 = (let s = strip s0 in
     case s of
       [] \<Rightarrow> None
     | c # cs \<Rightarrow>
         if c = CHR ''-'' then (if digits_ok cs then Some (- int (digits_value cs)) else None)
         else if c = CHR ''+'' then (if digits_ok cs then Some (int (digits_value cs)) else None)
         else if digits_ok s then Some (int (digits_value s)) else None)"

text \<open>
  \<open>os.path.splitext(p)[1]\<close> on POSIX: the extension starts at the last dot of the last
  path component, unless only dots stand before it in that component.
\<close>

definition basename :: "string \<Rightarrow> string" where
  "basename p = rev (takeWhile (\<lambda>c. c \<noteq> CHR ''/'') (rev p))"

definition splitext_ext :: "string \<Rightarrow> string" where
  "splitext_ext p = (let b = basename p;
       ext_rev = takeWhile (\<lambda>c. c \<noteq> CHR ''.'') (rev b);
       stem = take (length b - length ext_rev - 1) b
     in if CHR ''.'' \<notin> set b \<or> (\<forall>c \<in> set stem. c = CHR ''.'') then []
        else CHR ''.'' # rev ext_rev)"

text \<open>\<open>os.path.join(a, b)\<close> on POSIX.\<close>

definition path_join :: "string \<Rightarrow> string \<Rightarrow> string" where
  "path_join a b = (if b \<noteq> [] \<and> hd b = CHR ''/'' then b
                    else if a = [] \<or> last a = CHR ''/'' then a @ b
                    else a @ ''/'' @ b)"

section \<open>Python floats\<close>

text \<open>
  A finite Python float is modelled by its exact value, a rational, and every float
  operation rounds the exact result to the nearest double, ties to even
  (\<open>round_double\<close>). The model covers the normal range of doubles: it has no overflow
  to infinity and no subnormal numbers, which no computation of the repository reaches
  on image sizes and pixel values.
\<close>

text \<open>The exponent \<open>e\<close> with \<open>2 ^ e \<le> x < 2 ^ (e + 1)\<close>, for \<open>x > 0\<close>.\<close>

definition ilog2 :: "rat \<Rightarrow> int" where
  "ilog2 x = (case quotient_of x of (p, q) \<Rightarrow>
     let d = bitlen p - bitlen q in
     if x < power_int 2 d then d - 1 else d)"

definition round_half_even :: "rat \<Rightarrow> int" where
  "round_half_even m = (let f = \<lfloor>m\<rfloor>; r = m - of_int f in
     if r < 1 / 2 then f else if 1 / 2 < r then f + 1 else if even f then f else f + 1)"

definition round_double :: "rat \<Rightarrow> rat" where
  "round_double x = (if x = 0 then 0 else
     let e = ilog2 \<bar>x\<bar> - 52 in
     sgn x * of_int (round_half_even (\<bar>x\<bar> / power_int 2 e)) * power_int 2 e)"

text \<open>\<open>float(i)\<close>, and the float operations \<open>a / b\<close>, \<open>a * b\<close>, \<open>a + b\<close>, \<open>a - b\<close>.\<close>

definition float_of_int :: "int \<Rightarrow> rat" where
  "float_of_int i = round_double (of_int i)"

definition fdiv :: "rat \<Rightarrow> rat \<Rightarrow> rat" where
  "fdiv a b = round_double (a / b)"

definition fmul :: "rat \<Rightarrow> rat \<Rightarrow> rat" where
  "fmul a b = round_double (a * b)"

definition fadd :: "rat \<Rightarrow> rat \<Rightarrow> rat" where
  "fadd a b = round_double (a + b)"

definition fsub :: "rat \<Rightarrow> rat \<Rightarrow> rat" where
  "fsub a b = round_double (a - b)"

text \<open>\<open>int(x)\<close> on a float truncates toward zero.\<close>

definition int_of_float :: "rat \<Rightarrow> int" where
  "int_of_float x = (if 0 \<le> x then \<lfloor>x\<rfloor> else - \<lfloor>- x\<rfloor>)"

text \<open>The format \<open>{x:.1f}\<close>: one decimal, correctly rounded, ties to even.\<close>

definition fmt_1f :: "rat \<Rightarrow> string" where
  "fmt_1f x = (let n = nat (round_half_even (\<bar>x\<bar> * 10)) in
     (if x < 0 then ''-'' else '''') @ str_nat (n div 10) @ ''.'' @ str_nat (n mod 10))"

section \<open>Images (Pillow)\<close>

text \<open>
  An image is the list of its rows, top to bottom, each row the list of its pixels. A
  channel value is an unsigned byte. Mode \<open>L\<close> has one channel, mode \<open>RGB\<close> three.
  The operations are those of the Pillow library that \<open>apply_mode\<close> calls, with the
  arithmetic of Pillow's implementation.
\<close>

type_synonym gray = "8 word"
type_synonym rgb = "8 word \<times> 8 word \<times> 8 word"
type_synonym 'p image = "'p list list"

text \<open>\<open>im.size\<close>: (width, height).\<close>

definition img_width :: "'p image \<Rightarrow> nat" where
  "img_width im = (case im of [] \<Rightarrow> 0 | r # _ \<Rightarrow> length r)"

definition img_height :: "'p image \<Rightarrow> nat" where
  "img_height im = length im"

text \<open>\<open>convert("L")\<close> of an RGB image: the ITU-R 601-2 luma transform in 16-bit fixed point.\<close>

definition rgb2l :: "rgb \<Rightarrow> gray" where
  "rgb2l p = (case p of (r, g, b) \<Rightarrow>
     of_nat ((unat r * 19595 + unat g * 38470 + unat b * 7471 + 32768) div 65536))"

definition convert_L :: "rgb image \<Rightarrow> gray image" where
  "convert_L im = map (map rgb2l) im"

text \<open>\<open>convert("RGB")\<close> of an L image (and of a bilevel image, whose pixels are 0 or 255).\<close>

definition l2rgb :: "gray \<Rightarrow> rgb" where
  "l2rgb v = (v, v, v)"

definition convert_RGB :: "gray image \<Rightarrow> rgb image" where
  "convert_RGB im = map (map l2rgb) im"

text \<open>\<open>g.point(lambda p: 255 if p >= threshold else 0, mode="L")\<close>.\<close>

definition binarize :: "int \<Rightarrow> gray \<Rightarrow> gray" where
  "binarize threshold p = (if threshold \<le> uint p then 255 else 0)"

definition point_threshold :: "int \<Rightarrow> gray image \<Rightarrow> gray image" where
  "point_threshold threshold im = map (map (binarize threshold)) im"

text \<open>
  \<open>ImageFilter.FIND_EDGES\<close>: the 3x3 kernel with 8 at the centre and -1 around it, scale
  1, offset 0. An image narrower or lower than the kernel is copied; otherwise the border
  pixels are copied and every inner pixel is the clipped kernel sum.
\<close>

definition clip8 :: "int \<Rightarrow> gray" where
  "clip8 v = (if v \<le> 0 then 0 else if 255 \<le> v then 255 else of_int v)"

definition px :: "gray image \<Rightarrow> nat \<Rightarrow> nat \<Rightarrow> int" where
  "px im x y = uint (im ! y ! x)"

definition kernel_sum :: "gray image \<Rightarrow> nat \<Rightarrow> nat \<Rightarrow> int" where
  "kernel_sum im x y =
     8 * px im x y
     - px im (x - 1) (y - 1) - px im x (y - 1) - px im (x + 1) (y - 1)
     - px im (x - 1) y - px im (x + 1) y
     - px im (x - 1) (y + 1) - px im x (y + 1) - px im (x + 1) (y + 1)"

definition find_edges :: "gray image \<Rightarrow> gray image" where
  "find_edges im = (let w = img_width im; h = img_height im in
     if w < 3 \<or> h < 3 then im
     else map (\<lambda>y. if y = 0 \<or> y = h - 1 then im ! y
                    else map (\<lambda>x. if x = 0 \<or> x = w - 1 then im ! y ! x
                                   else clip8 (kernel_sum im x y)) [0..<w]) [0..<h])"

text \<open>
  \<open>ImageOps.autocontrast(image)\<close> with its default cutoff 0: \<open>lo\<close> and \<open>hi\<close> are the least
  and the greatest value present (255 and 0 when the histogram is empty, where the two
  search loops run to their end); when \<open>hi <= lo\<close> the lookup table is the identity,
  otherwise it stretches \<open>lo..hi\<close> to \<open>0..255\<close> in float arithmetic.
\<close>

definition histogram_lo :: "gray image \<Rightarrow> nat" where
  "histogram_lo im = (case find (\<lambda>i. i \<in> set (map unat (concat im))) [0..<256] of
     None \<Rightarrow> 255 | Some l \<Rightarrow> l)"

definition histogram_hi :: "gray image \<Rightarrow> nat" where
  "histogram_hi im = (case find (\<lambda>i. i \<in> set (map unat (concat im))) (rev [0..<256]) of
     None \<Rightarrow> 0 | Some h \<Rightarrow> h)"

definition autocontrast_lut :: "nat \<Rightarrow> nat \<Rightarrow> gray \<Rightarrow> gray" where
  "autocontrast_lut lo hi p =
     (if hi \<le> lo then p
      else let scale = fdiv 255 (float_of_int (int hi - int lo));
               offset = fmul (float_of_int (- int lo)) scale;
               ix = int_of_float (fadd (fmul (float_of_int (uint p)) scale) offset)
           in if ix < 0 then 0 else if 255 < ix then 255 else of_int ix)"

definition autocontrast :: "gray image \<Rightarrow> gray image" where
  "autocontrast im = map (map (autocontrast_lut (histogram_lo im) (histogram_hi im))) im"

text \<open>\<open>ImageOps.invert(image)\<close>: the lookup table 255, 254, ..., 0.\<close>

definition invert :: "gray image \<Rightarrow> gray image" where
  "invert im = map (map (\<lambda>p. 255 - p)) im"

text \<open>
  Encoded files are kept symbolic: the PNG of an image, the PNG of an image resized with
  the Lanczos filter to a given (width, height), the PDF Pillow writes from a list of page
  images, the PDF img2pdf writes from a list of PNG files.
\<close>

datatype blob =
    Png "rgb image"
  | PngResized "rgb image" int int
  | PillowPdf "rgb image list"
  | Img2Pdf "blob list"

fun png_width :: "blob \<Rightarrow> int option" where
  "png_width (Png im) = Some (int (img_width im))"
| "png_width (PngResized im w h) = Some w"
| "png_width _ = None"

fun png_height :: "blob \<Rightarrow> int option" where
  "png_height (Png im) = Some (int (img_height im))"
| "png_height (PngResized im w h) = Some h"
| "png_height _ = None"

section \<open>The world outside the program\<close>

text \<open>
  Everything the program does to the world is an event appended to a trace; everything it
  reads from the world is a function of the trace so far, taken from an environment
  \<open>env\<close> that the theorems quantify over. A call of \<open>subprocess.run\<close> is the event
  \<open>Subprocess argv timeout\<close>, so "no process is spawned" means the trace gains no such
  event. \<open>LockAcquire\<close> and \<open>LockRelease\<close> are this thread taking and releasing the
  lock \<open>PP_AIRPRINT_LOCK\<close>; whether another thread holds that lock at a moment is read
  from the environment, like everything else the program does not decide.
\<close>

datatype event =
    Subprocess "string list" rat
  | MkDTemp string
  | RmTree string
  | MkSTemp string
  | WriteFile string blob
  | LockAcquire
  | LockRelease

type_synonym trace = "event list"

text \<open>What \<open>subprocess.run\<close> does: the two exceptions \<open>run_cmd\<close> handles, any other
  exception (\<open>PermissionError\<close>, a decoding error) with its text, or a completed process
  with its return code, stdout and stderr.\<close>

datatype child = FileNotFound | TimeoutExpired | Raised string | Completed int string string

record env =
  path_exists :: "trace \<Rightarrow> string \<Rightarrow> bool"
  environ :: "trace \<Rightarrow> string \<Rightarrow> string option"
  subprocess_run :: "trace \<Rightarrow> string list \<Rightarrow> (string \<Rightarrow> string option) \<Rightarrow> rat \<Rightarrow> child"
  monotonic :: "trace \<Rightarrow> rat"
  image_open :: "trace \<Rightarrow> string \<Rightarrow> string + rgb image"
  mkdtemp :: "trace \<Rightarrow> string \<Rightarrow> string + string"
  mkstemp :: "trace \<Rightarrow> string \<Rightarrow> string \<Rightarrow> string + string"
  write_file :: "trace \<Rightarrow> string \<Rightarrow> blob \<Rightarrow> string option"
  floyd_steinberg :: "gray image \<Rightarrow> gray image"
  img2pdf_convert :: "blob list \<Rightarrow> blob option"
  lock_held :: "trace \<Rightarrow> bool"

section \<open>util.py\<close>

record CmdResult =
  argv :: "string list"
  returncode :: int
  stdout :: string
  stderr :: string
  duration_s :: rat

text \<open>
  The exceptions. \<open>CommandError\<close> is a subclass of \<open>PrinterPalError\<close> and carries the
  result; \<open>OtherError\<close> stands for every exception outside the program's hierarchy
  (\<open>OSError\<close>, \<open>IndexError\<close>, Pillow's errors), with its text.
\<close>

datatype error =
    ValueError string
  | PrinterPalError string
  | CommandError string CmdResult
  | OtherError string

text \<open>\<open>except PrinterPalError\<close> catches the base class and its subclass.\<close>

fun is_PrinterPalError :: "error \<Rightarrow> bool" where
  "is_PrinterPalError (PrinterPalError _) = True"
| "is_PrinterPalError (CommandError _ _) = True"
| "is_PrinterPalError _ = False"

type_synonym 'a io = "trace \<Rightarrow> (error + 'a) \<times> trace"

text \<open>\<open>dict(os.environ, **(env or {}))\<close>, the environment of the child.\<close>

definition child_environ ::
  "env \<Rightarrow> trace \<Rightarrow> (string \<Rightarrow> string option) option \<Rightarrow> string \<Rightarrow> string option" where
  "child_environ os tr env =
     environ os tr ++ (case env of None \<Rightarrow> Map.empty | Some e \<Rightarrow> e)"

definition run_cmd ::
  "env \<Rightarrow> string list \<Rightarrow> rat \<Rightarrow> bool \<Rightarrow> (string \<Rightarrow> string option) option \<Rightarrow> CmdResult io" where
  "run_cmd os av timeout_s check env tr =
     (if av = [] then (Inl (ValueError ''argv must not be empty''), tr)
      else
        let t0 = monotonic os tr;
            tr' = tr @ [Subprocess av timeout_s]
        in case subprocess_run os tr av (child_environ os tr env) timeout_s of
             FileNotFound \<Rightarrow>
               (Inl (PrinterPalError (''Command not found: '' @ hd av)), tr')
           | TimeoutExpired \<Rightarrow>
               (Inl (PrinterPalError (''Command timed out after '' @ fmt_1f timeout_s @ ''s: ''
                                       @ join '' '' av)), tr')
           | Raised msg \<Rightarrow> (Inl (OtherError msg), tr')
           | Completed rc out err \<Rightarrow>
               let dt = fsub (monotonic os tr') t0;
                   res = \<lparr>argv = av, returncode = rc, stdout = out, stderr = err,
                          duration_s = dt\<rparr>
               in if check \<and> returncode res \<noteq> 0
                  then (Inl (CommandError (''Command failed ('' @ str_int (returncode res)
                                            @ ''): '' @ join '' '' (argv res)) res), tr')
                  else (Inr res, tr'))"

section \<open>printer.py\<close>

definition safe_timeout :: rat where
  "safe_timeout = 6"

definition cups_available :: "env \<Rightarrow> bool io" where
  "cups_available os tr =
     (case run_cmd os [''lpstat'', ''-r''] safe_timeout False None tr of
        (Inl e, tr') \<Rightarrow> if is_PrinterPalError e then (Inr False, tr') else (Inl e, tr')
      | (Inr _, tr') \<Rightarrow> (Inr True, tr'))"

definition print_file ::
  "env \<Rightarrow> string \<Rightarrow> string option \<Rightarrow> int \<Rightarrow> string \<Rightarrow> string list option \<Rightarrow> rat \<Rightarrow> CmdResult io" where
  "print_file os file_path printer copies title options timeout_s tr =
     (if \<not> path_exists os tr file_path
      then (Inl (PrinterPalError (''File does not exist: '' @ file_path)), tr)
      else if copies < 1 \<or> 99 < copies
      then (Inl (PrinterPalError ''copies must be between 1 and 99''), tr)
      else
        let av = [''lp'', ''-n'', str_int copies, ''-t'', title]
                 @ (case printer of None \<Rightarrow> [] | Some p \<Rightarrow> if p = [] then [] else [''-d'', p])
                 @ [''-o'', ''print-color-mode=monochrome'', ''-o'', ''ColorModel=Gray'']
                 @ concat (map (\<lambda>opt. [''-o'', opt])
                              (filter (\<lambda>opt. opt \<noteq> [])
                                 (case options of None \<Rightarrow> [] | Some xs \<Rightarrow> xs)))
                 @ [file_path]
        in case run_cmd os av timeout_s True None tr of
             (Inl (CommandError m r), tr') \<Rightarrow>
               (Inl (PrinterPalError (''Printing failed: ''
                  @ first_truthy [strip (stderr r), strip (stdout r), ''unknown error''])), tr')
           | other \<Rightarrow> other)"

text \<open>
  \<open>re.match(r"^[A-Za-z0-9_.-]+$", job_id)\<close>: the class matches greedily from the start,
  at least once, and \<open>$\<close> then matches at the end of the string or just before a newline
  that ends the string.
\<close>

definition job_id_char :: "char \<Rightarrow> bool" where
  "job_id_char c = (let n = (of_char c :: nat) in
     (65 \<le> n \<and> n \<le> 90) \<or> (97 \<le> n \<and> n \<le> 122) \<or> (48 \<le> n \<and> n \<le> 57)
     \<or> c = CHR ''_'' \<or> c = CHR ''.'' \<or> c = CHR ''-'')"

definition job_id_match :: "string \<Rightarrow> bool" where
  "job_id_match s = (let rest = dropWhile job_id_char s in
     takeWhile job_id_char s \<noteq> [] \<and> (rest = [] \<or> rest = [CHR 0x0A]))"

definition cancel_job :: "env \<Rightarrow> string \<Rightarrow> unit io" where
  "cancel_job os job_id tr =
     (if job_id = [] \<or> \<not> job_id_match job_id
      then (Inl (PrinterPalError ''Invalid job id''), tr)
      else case run_cmd os [''cancel'', job_id] safe_timeout True None tr of
             (Inl e, tr') \<Rightarrow> (Inl e, tr')
           | (Inr _, tr') \<Rightarrow> (Inr (), tr'))"

section \<open>imageproc.py\<close>

definition SUPPORTED_IMAGE_EXTS :: "string list" where
  "SUPPORTED_IMAGE_EXTS = [''.png'', ''.jpg'', ''.jpeg'', ''.bmp'', ''.tif'', ''.tiff'']"

definition pdf_page_count :: "env \<Rightarrow> string \<Rightarrow> int io" where
  "pdf_page_count os path tr =
     (if \<not> path_exists os tr path then (Inl (PrinterPalError ''PDF not found''), tr)
      else case run_cmd os [''pdfinfo'', path] 8 True None tr of
             (Inl e, tr') \<Rightarrow> (Inl e, tr')
           | (Inr res, tr') \<Rightarrow>
               (case find (\<lambda>line. startswith (lower line) ''pages:'') (splitlines (stdout res)) of
                  None \<Rightarrow> (Inl (PrinterPalError
                    ''Unable to determine PDF page count (pdfinfo output unexpected)''), tr')
                | Some line \<Rightarrow>
                    (case py_int (strip (after_colon line)) of
                       Some n \<Rightarrow> (Inr n, tr')
                     | None \<Rightarrow> (Inl (PrinterPalError
                         ''Unable to determine PDF page count (pdfinfo output unexpected)''), tr'))))"

text \<open>
  The temporary directory is made on entry (\<open>MkDTemp\<close>) and removed on every exit
  (\<open>RmTree\<close>), as the \<open>with\<close> block does.
\<close>

definition render_pdf_page_to_png :: "env \<Rightarrow> string \<Rightarrow> int \<Rightarrow> int \<Rightarrow> rgb image io" where
  "render_pdf_page_to_png os path page dpi tr =
     (if page < 1 then (Inl (PrinterPalError ''page must be >= 1''), tr)
      else case mkdtemp os tr ''printerpal_pdf_'' of
             Inl msg \<Rightarrow> (Inl (OtherError msg), tr)
           | Inr td \<Rightarrow>
               let outprefix = path_join td ''page'' in
               (case run_cmd os [''pdftoppm'', ''-png'', ''-f'', str_int page, ''-l'', str_int page,
                                 ''-r'', str_int dpi, ''-singlefile'', path, outprefix]
                       25 True None (tr @ [MkDTemp td]) of
                  (Inl e, tr') \<Rightarrow> (Inl e, tr' @ [RmTree td])
                | (Inr _, tr') \<Rightarrow>
                    let png_path = outprefix @ ''.png'' in
                    if \<not> path_exists os tr' png_path
                    then (Inl (PrinterPalError ''pdftoppm did not produce expected PNG output''),
                          tr' @ [RmTree td])
                    else (case image_open os tr' png_path of
                            Inl msg \<Rightarrow> (Inl (OtherError msg), tr' @ [RmTree td])
                          | Inr im \<Rightarrow> (Inr im, tr' @ [RmTree td]))))"

definition open_image :: "env \<Rightarrow> string \<Rightarrow> rgb image io" where
  "open_image os path tr =
     (case image_open os tr path of
        Inl msg \<Rightarrow> (Inl (PrinterPalError (''Unable to open image: '' @ msg)), tr)
      | Inr im \<Rightarrow> (Inr im, tr))"

definition apply_mode :: "env \<Rightarrow> rgb image \<Rightarrow> string \<Rightarrow> int \<Rightarrow> error + rgb image" where
  "apply_mode os im mode0 threshold =
     (let mode = lower mode0 in
      if mode = ''raw'' then Inr im
      else if mode = ''grayscale'' then Inr (convert_RGB (convert_L im))
      else if mode = ''bw''
      then Inr (convert_RGB (point_threshold threshold (convert_L im)))
      else if mode = ''dither''
      then Inr (convert_RGB (floyd_steinberg os (convert_L im)))
      else if mode = ''outline''
      then Inr (convert_RGB (point_threshold threshold
                  (invert (autocontrast (find_edges (convert_L im))))))
      else Inl (PrinterPalError ''Unsupported mode''))"

text \<open>The size of the preview: \<open>scale\<close>, \<open>new_w\<close> and \<open>new_h\<close> of \<open>render_preview_png\<close>.\<close>

definition preview_scale :: "int \<Rightarrow> int \<Rightarrow> rat" where
  "preview_scale width w0 = min 1 (fdiv (float_of_int width) (float_of_int w0))"

definition preview_dim :: "int \<Rightarrow> rat \<Rightarrow> int" where
  "preview_dim d0 scale = max 1 (int_of_float (fmul (float_of_int d0) scale))"

definition render_preview_png ::
  "env \<Rightarrow> string \<Rightarrow> string \<Rightarrow> int \<Rightarrow> int \<Rightarrow> int \<Rightarrow> int \<Rightarrow> blob io" where
  "render_preview_png os path mode page width preview_dpi threshold tr =
     (if width < 64 \<or> 2000 < width
      then (Inl (PrinterPalError ''width must be between 64 and 2000''), tr)
      else
        let ext = lower (splitext_ext path) in
        case (if ext = ''.pdf'' then render_pdf_page_to_png os path page preview_dpi tr
              else if ext \<in> set SUPPORTED_IMAGE_EXTS then open_image os path tr
              else (Inl (PrinterPalError ''Preview supports PDF and common image formats''), tr)) of
          (Inl e, tr') \<Rightarrow> (Inl e, tr')
        | (Inr im, tr') \<Rightarrow>
            (case apply_mode os im mode threshold of
               Inl e \<Rightarrow> (Inl e, tr')
             | Inr im2 \<Rightarrow>
                 let w0 = int (img_width im2); h0 = int (img_height im2) in
                 if w0 \<le> 0 \<or> h0 \<le> 0
                 then (Inl (PrinterPalError ''Invalid image dimensions''), tr')
                 else
                   let scale = preview_scale width w0;
                       new_w = preview_dim w0 scale;
                       new_h = preview_dim h0 scale
                   in (Inr (PngResized im2 new_w new_h), tr')))"

text \<open>
  \<open>_images_to_pdf_bytes\<close>: img2pdf when it imports and converts, otherwise Pillow, whose
  branch reads \<open>rgb_images[0]\<close>.
\<close>

definition images_to_pdf_bytes :: "env \<Rightarrow> rgb image list \<Rightarrow> error + blob" where
  "images_to_pdf_bytes os images =
     (case img2pdf_convert os (map Png images) of
        Some b \<Rightarrow> Inr b
      | None \<Rightarrow>
          (case images of
             [] \<Rightarrow> Inl (OtherError ''list index out of range'')
           | _ # _ \<Rightarrow> Inr (PillowPdf images)))"

record meta =
  meta_source :: string
  meta_mode :: string
  meta_print_dpi :: int
  meta_pages :: "int option"
  meta_prepared :: bool
  meta_output :: "string option"

text \<open>The loop \<open>for p in range(1, pages + 1)\<close> of \<open>prepare_print_file\<close>.\<close>

fun render_pages ::
  "env \<Rightarrow> string \<Rightarrow> string \<Rightarrow> int \<Rightarrow> int \<Rightarrow> int list \<Rightarrow> rgb image list io" where
  "render_pages os src_path mode print_dpi threshold [] tr = (Inr [], tr)"
| "render_pages os src_path mode print_dpi threshold (p # ps) tr =
     (case render_pdf_page_to_png os src_path p print_dpi tr of
        (Inl e, tr1) \<Rightarrow> (Inl e, tr1)
      | (Inr im, tr1) \<Rightarrow>
          (case apply_mode os im mode threshold of
             Inl e \<Rightarrow> (Inl e, tr1)
           | Inr im2 \<Rightarrow>
               (case render_pages os src_path mode print_dpi threshold ps tr1 of
                  (Inl e, tr2) \<Rightarrow> (Inl e, tr2)
                | (Inr ims, tr2) \<Rightarrow> (Inr (im2 # ims), tr2))))"

text \<open>\<open>tempfile.mkstemp\<close>, then the file is written.\<close>

definition write_temp_pdf :: "env \<Rightarrow> blob \<Rightarrow> string io" where
  "write_temp_pdf os pdf_bytes tr =
     (case mkstemp os tr ''printerpal_print_'' ''.pdf'' of
        Inl msg \<Rightarrow> (Inl (OtherError msg), tr)
      | Inr outpath \<Rightarrow>
          (case write_file os (tr @ [MkSTemp outpath]) outpath pdf_bytes of
             Some msg \<Rightarrow> (Inl (OtherError msg), tr @ [MkSTemp outpath])
           | None \<Rightarrow> (Inr outpath, tr @ [MkSTemp outpath, WriteFile outpath pdf_bytes])))"

definition prepare_print_file ::
  "env \<Rightarrow> string \<Rightarrow> string \<Rightarrow> int \<Rightarrow> int \<Rightarrow> int \<Rightarrow> (string \<times> meta) io" where
  "prepare_print_file os src_path mode print_dpi max_pdf_pages threshold tr =
     (if \<not> path_exists os tr src_path
      then (Inl (PrinterPalError ''Source file not found''), tr)
      else
        let ext = lower (splitext_ext src_path);
            meta0 = \<lparr>meta_source = src_path, meta_mode = mode, meta_print_dpi = print_dpi,
                     meta_pages = None, meta_prepared = False, meta_output = None\<rparr>
        in
        if mode = ''raw'' then (Inr (src_path, meta0\<lparr>meta_prepared := False\<rparr>), tr)
        else if ext = ''.pdf'' then
          (case pdf_page_count os src_path tr of
             (Inl e, tr1) \<Rightarrow> (Inl e, tr1)
           | (Inr pages, tr1) \<Rightarrow>
               let meta1 = meta0\<lparr>meta_pages := Some pages\<rparr> in
               if max_pdf_pages < pages
               then (Inl (PrinterPalError (''PDF has '' @ str_int pages
                       @ '' pages, which exceeds processing limit ('' @ str_int max_pdf_pages
                       @ ''). Either increase printing.max_pdf_pages_process or use ''
                       @ [CHR 0x27] @ ''Raw'' @ [CHR 0x27] @ '' mode.'')), tr1)
               else
                 (case render_pages os src_path mode print_dpi threshold [1..pages] tr1 of
                    (Inl e, tr2) \<Rightarrow> (Inl e, tr2)
                  | (Inr imgs, tr2) \<Rightarrow>
                      (case images_to_pdf_bytes os imgs of
                         Inl e \<Rightarrow> (Inl e, tr2)
                       | Inr pdf_bytes \<Rightarrow>
                           (case write_temp_pdf os pdf_bytes tr2 of
                              (Inl e, tr3) \<Rightarrow> (Inl e, tr3)
                            | (Inr outpath, tr3) \<Rightarrow>
                                (Inr (outpath, meta1\<lparr>meta_prepared := True,
                                                       meta_output := Some outpath\<rparr>), tr3)))))
        else if ext \<in> set SUPPORTED_IMAGE_EXTS then
          (case open_image os src_path tr of
             (Inl e, tr1) \<Rightarrow> (Inl e, tr1)
           | (Inr im, tr1) \<Rightarrow>
               (case apply_mode os im mode threshold of
                  Inl e \<Rightarrow> (Inl e, tr1)
                | Inr im2 \<Rightarrow>
                    (case write_temp_pdf os (PillowPdf [im2]) tr1 of
                       (Inl e, tr2) \<Rightarrow> (Inl e, tr2)
                     | (Inr outpath, tr2) \<Rightarrow>
                         (Inr (outpath, meta0\<lparr>meta_prepared := True,
                                                meta_output := Some outpath\<rparr>), tr2))))
        else (Inl (PrinterPalError ''Unsupported file type for printing''), tr))"

section \<open>config.py\<close>

text \<open>
  A Python float: a finite double (the rational it denotes; \<open>0.0\<close> and \<open>-0.0\<close>, which
  are \<open>==\<close> and truncate alike, are one value), an infinity, or a NaN. A NaN carries the
  identity of its float object, which \<open>==\<close> on containers observes: items are compared by
  \<open>x is y or x == y\<close>, and a NaN is \<open>==\<close> to nothing, itself included.
\<close>

datatype pyfloat = Finite rat | PosInf | NegInf | NaN nat

text \<open>
  A value that \<open>json.dump\<close> writes and \<open>json.load\<close> returns: \<open>None\<close>, a bool, an
  int, a float, a str, a list, or a dict with string keys. A dict is a finite map.
\<close>

datatype json =
    JNull
  | JBool bool
  | JInt int
  | JFloat pyfloat
  | JStr string
  | JList "json list"
  | JObj "(string, json) fmap"

type_synonym config = "(string, json) fmap"

definition default_config :: "string \<Rightarrow> config" where
  "default_config token_hex = fmap_of_list [
     (''app'', JObj (fmap_of_list [
        (''host'', JStr ''0.0.0.0''),
        (''port'', JInt 80),
        (''secret_key'', JStr token_hex),
        (''max_upload_mb'', JInt 25)])),
     (''printing'', JObj (fmap_of_list [
        (''default_printer'', JStr ''''),
        (''preview_dpi'', JInt 150),
        (''print_dpi'', JInt 200),
        (''max_pdf_pages_process'', JInt 30),
        (''default_copies'', JInt 1),
        (''default_mode'', JStr ''grayscale''),
        (''bw_threshold'', JInt 180)])),
     (''airprint'', JObj (fmap_of_list [
        (''auto_enable'', JBool True)])),
     (''ui'', JObj (fmap_of_list [
        (''default_dark_mode'', JBool False),
        (''default_eink_mode'', JBool False)])),
     (''security'', JObj (fmap_of_list [
        (''require_token'', JBool False),
        (''token'', JStr '''')]))]"

primrec merge_value :: "json \<Rightarrow> json \<Rightarrow> json" where
  "merge_value JNull v = v"
| "merge_value (JBool b) v = v"
| "merge_value (JInt i) v = v"
| "merge_value (JFloat f) v = v"
| "merge_value (JStr s) v = v"
| "merge_value (JList xs) v = v"
| "merge_value (JObj dst) v =
     (case v of
        JObj src \<Rightarrow>
          JObj (dst ++\<^sub>f fmmap_keys (\<lambda>k v'. case fmlookup (fmmap merge_value dst) k of
                                             None \<Rightarrow> v' | Some into \<Rightarrow> into v') src)
      | _ \<Rightarrow> v)"

definition merge :: "config \<Rightarrow> config \<Rightarrow> config" where
  "merge dst src =
     dst ++\<^sub>f fmmap_keys (\<lambda>k v. case fmlookup dst k of None \<Rightarrow> v | Some d \<Rightarrow> merge_value d v) src"

text \<open>\<open>int(v)\<close> of a float: truncation, and an exception at an infinity or a NaN.\<close>

definition int_of_pyfloat :: "pyfloat \<Rightarrow> error + int" where
  "int_of_pyfloat f =
     (case f of
        Finite r \<Rightarrow> Inr (int_of_float r)
      | NaN _ \<Rightarrow> Inl (OtherError ''ValueError: cannot convert float NaN to integer'')
      | _ \<Rightarrow> Inl (OtherError ''OverflowError: cannot convert float infinity to integer''))"

text \<open>\<open>_as_int\<close>; the argument is what \<open>dict.get\<close> returned.\<close>

definition as_int :: "json option \<Rightarrow> int \<Rightarrow> int \<Rightarrow> string \<Rightarrow> error + int" where
  "as_int v min_v max_v name =
     (case (case v of
              Some (JInt i) \<Rightarrow> Inr i
            | Some (JFloat f) \<Rightarrow> int_of_pyfloat f
            | _ \<Rightarrow> Inl (PrinterPalError (name @ '' must be a number''))) of
        Inl e \<Rightarrow> Inl e
      | Inr iv \<Rightarrow>
          if iv < min_v \<or> max_v < iv
          then Inl (PrinterPalError (name @ '' must be between '' @ str_int min_v @ '' and ''
                                      @ str_int max_v))
          else Inr iv)"

text \<open>\<open>merged[section]\<close>, on which \<open>.get\<close> is then called: a value that is not a dict has
  no such method.\<close>

definition section_of :: "config \<Rightarrow> string \<Rightarrow> error + config" where
  "section_of merged sec =
     (case fmlookup merged sec of
        None \<Rightarrow> Inl (OtherError ''KeyError'')
      | Some (JObj d) \<Rightarrow> Inr d
      | Some _ \<Rightarrow> Inl (OtherError ''AttributeError''))"

text \<open>\<open>merged[sec][key] = _as_int(merged[sec].get(key), min_v=..., max_v=..., name=...)\<close>.\<close>

definition set_int :: "string \<Rightarrow> string \<Rightarrow> int \<Rightarrow> int \<Rightarrow> config \<Rightarrow> error + config" where
  "set_int sec key min_v max_v merged =
     (case section_of merged sec of
        Inl e \<Rightarrow> Inl e
      | Inr d \<Rightarrow>
          (case as_int (fmlookup d key) min_v max_v (sec @ ''.'' @ key) of
             Inl e \<Rightarrow> Inl e
           | Inr iv \<Rightarrow> Inr (fmupd sec (JObj (fmupd key (JInt iv) d)) merged)))"

definition check_secret_key :: "config \<Rightarrow> error + config" where
  "check_secret_key merged =
     (case section_of merged ''app'' of
        Inl e \<Rightarrow> Inl e
      | Inr d \<Rightarrow>
          (case fmlookup d ''secret_key'' of
             Some (JStr s) \<Rightarrow>
               if length s < 16
               then Inl (PrinterPalError ''app.secret_key must be a non-empty string'')
               else Inr merged
           | _ \<Rightarrow> Inl (PrinterPalError ''app.secret_key must be a non-empty string'')))"

definition MODES :: "string list" where
  "MODES = [''raw'', ''grayscale'', ''bw'', ''dither'', ''outline'']"

text \<open>\<open>mode not in {...}\<close>: a list or a dict is not hashable.\<close>

definition check_default_mode :: "config \<Rightarrow> error + config" where
  "check_default_mode merged =
     (case section_of merged ''printing'' of
        Inl e \<Rightarrow> Inl e
      | Inr d \<Rightarrow>
          (case fmlookup d ''default_mode'' of
             Some (JStr m) \<Rightarrow>
               if m \<in> set MODES then Inr merged
               else Inl (PrinterPalError
                 ''printing.default_mode must be one of raw|grayscale|bw|dither|outline'')
           | Some (JList _) \<Rightarrow> Inl (OtherError ''TypeError: unhashable type'')
           | Some (JObj _) \<Rightarrow> Inl (OtherError ''TypeError: unhashable type'')
           | _ \<Rightarrow> Inl (PrinterPalError
                 ''printing.default_mode must be one of raw|grayscale|bw|dither|outline'')))"

definition check_bool :: "string \<Rightarrow> string \<Rightarrow> config \<Rightarrow> error + config" where
  "check_bool sec key merged =
     (case section_of merged sec of
        Inl e \<Rightarrow> Inl e
      | Inr d \<Rightarrow>
          (case fmlookup d key of
             Some (JBool _) \<Rightarrow> Inr merged
           | _ \<Rightarrow> Inl (PrinterPalError (sec @ ''.'' @ key @ '' must be boolean''))))"

definition check_str :: "string \<Rightarrow> string \<Rightarrow> config \<Rightarrow> error + config" where
  "check_str sec key merged =
     (case section_of merged sec of
        Inl e \<Rightarrow> Inl e
      | Inr d \<Rightarrow>
          (case fmlookup d key of
             Some (JStr _) \<Rightarrow> Inr merged
           | _ \<Rightarrow> Inl (PrinterPalError (sec @ ''.'' @ key @ '' must be string''))))"

text \<open>Running the statements of \<open>validate_config\<close> in order; the first exception ends it.\<close>

definition and_then :: "error + 'a \<Rightarrow> ('a \<Rightarrow> error + 'b) \<Rightarrow> error + 'b" where
  "and_then m f = (case m of Inl e \<Rightarrow> Inl e | Inr x \<Rightarrow> f x)"

definition validate_steps :: "(config \<Rightarrow> error + config) list" where
  "validate_steps = [
     set_int ''app'' ''port'' 1 65535,
     set_int ''app'' ''max_upload_mb'' 1 500,
     check_secret_key,
     set_int ''printing'' ''preview_dpi'' 72 600,
     set_int ''printing'' ''print_dpi'' 72 1200,
     set_int ''printing'' ''max_pdf_pages_process'' 1 500,
     set_int ''printing'' ''default_copies'' 1 99,
     set_int ''printing'' ''bw_threshold'' 1 254,
     check_default_mode,
     check_bool ''ui'' ''default_dark_mode'',
     check_bool ''ui'' ''default_eink_mode'',
     check_bool ''airprint'' ''auto_enable'',
     check_bool ''security'' ''require_token'',
     check_str ''security'' ''token'']"

definition validate_config :: "string \<Rightarrow> config \<Rightarrow> error + config" where
  "validate_config token_hex cfg =
     foldl and_then (Inr (merge (default_config token_hex) cfg)) validate_steps"

text \<open>
  \<open>json.load\<close> of what \<open>json.dump(obj, indent=2, sort_keys=True)\<close> wrote, as
  \<open>read_json\<close> after \<open>atomic_write_json\<close> gives it. The encoder writes an int in
  decimal, a finite float by \<open>repr\<close>, the infinities as \<open>Infinity\<close> and \<open>-Infinity\<close>
  and every NaN as \<open>NaN\<close>; the decoder reads each back as the same value of the same
  type, except that every \<open>NaN\<close> becomes the one float object \<open>json.decoder.NaN\<close>.
  The order of the keys, which \<open>sort_keys\<close> changes, is not part of a map.
\<close>

definition decoder_NaN :: nat where
  "decoder_NaN = 0"

primrec loads_dumps :: "json \<Rightarrow> json" where
  "loads_dumps JNull = JNull"
| "loads_dumps (JBool b) = JBool b"
| "loads_dumps (JInt i) = JInt i"
| "loads_dumps (JFloat f) = JFloat (case f of NaN _ \<Rightarrow> NaN decoder_NaN | _ \<Rightarrow> f)"
| "loads_dumps (JStr s) = JStr s"
| "loads_dumps (JList xs) = JList (map loads_dumps xs)"
| "loads_dumps (JObj d) = JObj (fmmap loads_dumps d)"

definition json_roundtrip :: "config \<Rightarrow> config" where
  "json_roundtrip obj = fmmap loads_dumps obj"

text \<open>
  Python's \<open>==\<close> as a container applies it to two items, \<open>x is y or x == y\<close>. Bools,
  ints and floats compare as numbers, exactly; two NaNs only when they are one object; a
  list with a list item by item; a dict with a dict when they have the same keys and equal
  values.
\<close>

definition num_of :: "json \<Rightarrow> pyfloat option" where
  "num_of v =
     (case v of
        JBool b \<Rightarrow> Some (Finite (if b then 1 else 0))
      | JInt i \<Rightarrow> Some (Finite (of_int i))
      | JFloat f \<Rightarrow> Some f
      | _ \<Rightarrow> None)"

primrec item_eq :: "json \<Rightarrow> json \<Rightarrow> bool" where
  "item_eq JNull v = (v = JNull)"
| "item_eq (JBool b) v = (num_of v = Some (Finite (if b then 1 else 0)))"
| "item_eq (JInt i) v = (num_of v = Some (Finite (of_int i)))"
| "item_eq (JFloat f) v = (num_of v = Some f)"
| "item_eq (JStr s) v = (v = JStr s)"
| "item_eq (JList xs) v =
     (case v of JList ys \<Rightarrow> list_all2 (\<lambda>eq y. eq y) (map item_eq xs) ys | _ \<Rightarrow> False)"
| "item_eq (JObj d) v =
     (case v of JObj d' \<Rightarrow> fmrel (\<lambda>eq y. eq y) (fmmap item_eq d) d' | _ \<Rightarrow> False)"

text \<open>\<open>a == b\<close> for two dicts.\<close>

definition py_eq :: "config \<Rightarrow> config \<Rightarrow> bool" where
  "py_eq a b = fmrel (\<lambda>eq y. eq y) (fmmap item_eq a) b"

text \<open>A value that holds a NaN other than the decoder's.\<close>

primrec foreign_nan :: "json \<Rightarrow> bool" where
  "foreign_nan JNull = False"
| "foreign_nan (JBool b) = False"
| "foreign_nan (JInt i) = False"
| "foreign_nan (JFloat f) = (case f of NaN i \<Rightarrow> i \<noteq> decoder_NaN | _ \<Rightarrow> False)"
| "foreign_nan (JStr s) = False"
| "foreign_nan (JList xs) = (True \<in> set (map foreign_nan xs))"
| "foreign_nan (JObj d) = (True |\<in>| fmran (fmmap foreign_nan d))"

definition holds_foreign_nan :: "config \<Rightarrow> bool" where
  "holds_foreign_nan c = (True |\<in>| fmran (fmmap foreign_nan c))"

text \<open>\<open>merged[sec].get(key)\<close>, when \<open>merged[sec]\<close> is a dict.\<close>

definition field :: "config \<Rightarrow> string \<Rightarrow> string \<Rightarrow> json option" where
  "field c sec key = (case fmlookup c sec of Some (JObj d) \<Rightarrow> fmlookup d key | _ \<Rightarrow> None)"

text \<open>What \<open>validate_config\<close> establishes: every field of the defaults is there, and the
  checked ones have their type and range.\<close>

definition int_field :: "config \<Rightarrow> string \<Rightarrow> string \<Rightarrow> int \<Rightarrow> int \<Rightarrow> bool" where
  "int_field c sec key lo hi = (\<exists>i. field c sec key = Some (JInt i) \<and> lo \<le> i \<and> i \<le> hi)"

definition bool_field :: "config \<Rightarrow> string \<Rightarrow> string \<Rightarrow> bool" where
  "bool_field c sec key = (\<exists>b. field c sec key = Some (JBool b))"

definition str_field :: "config \<Rightarrow> string \<Rightarrow> string \<Rightarrow> bool" where
  "str_field c sec key = (\<exists>s. field c sec key = Some (JStr s))"

definition valid_config :: "config \<Rightarrow> bool" where
  "valid_config c =
     (field c ''app'' ''host'' \<noteq> None
      \<and> int_field c ''app'' ''port'' 1 65535
      \<and> int_field c ''app'' ''max_upload_mb'' 1 500
      \<and> (\<exists>s. field c ''app'' ''secret_key'' = Some (JStr s) \<and> 16 \<le> length s)
      \<and> field c ''printing'' ''default_printer'' \<noteq> None
      \<and> int_field c ''printing'' ''preview_dpi'' 72 600
      \<and> int_field c ''printing'' ''print_dpi'' 72 1200
      \<and> int_field c ''printing'' ''max_pdf_pages_process'' 1 500
      \<and> int_field c ''printing'' ''default_copies'' 1 99
      \<and> int_field c ''printing'' ''bw_threshold'' 1 254
      \<and> (\<exists>m. field c ''printing'' ''default_mode'' = Some (JStr m) \<and> m \<in> set MODES)
      \<and> bool_field c ''ui'' ''default_dark_mode''
      \<and> bool_field c ''ui'' ''default_eink_mode''
      \<and> bool_field c ''airprint'' ''auto_enable''
      \<and> bool_field c ''security'' ''require_token''
      \<and> str_field c ''security'' ''token'')"

text \<open>The defaults of the section \<open>app\<close>, as a list of pairs.\<close>

definition default_app :: "string \<Rightarrow> (string \<times> json) list" where
  "default_app tok = [(''host'', JStr ''0.0.0.0''), (''port'', JInt 80),
     (''secret_key'', JStr tok), (''max_upload_mb'', JInt 25)]"

section \<open>airprint.py\<close>

text \<open>The module constant, read from the process environment when the module is imported.\<close>

definition ROOT_HELPER :: "env \<Rightarrow> string" where
  "ROOT_HELPER os =
     (case environ os [] ''PRINTERPAL_ROOT_HELPER'' of
        None \<Rightarrow> ''/usr/local/sbin/printerpal-root''
      | Some p \<Rightarrow> p)"

definition ensure_airprint_via_root_helper :: "env \<Rightarrow> rat \<Rightarrow> config io" where
  "ensure_airprint_via_root_helper os timeout_s tr =
     (if \<not> path_exists os tr (ROOT_HELPER os)
      then (Inl (PrinterPalError (''Root helper not found at '' @ ROOT_HELPER os)), tr)
      else case run_cmd os [''sudo'', ''-n'', ROOT_HELPER os, ''ensure-airprint''] timeout_s True None tr of
             (Inl e, tr') \<Rightarrow> (Inl e, tr')
           | (Inr res, tr') \<Rightarrow>
               (Inr (fmap_of_list [(''ok'', JBool True), (''output'', JStr (strip (stdout res)))]),
                tr'))"

section \<open>web.py\<close>

text \<open>
  The state a request handler finds in \<open>app.config\<close>: the validated configuration, and
  the time and the printer set of the last automatic AirPrint ensure. The lock
  \<open>PP_AIRPRINT_LOCK\<close> is shared with the threads of the other requests, and is part of
  the world.
\<close>

record app =
  PP_CFG :: config
  PP_AIRPRINT_LAST_ENSURE :: rat
  PP_AIRPRINT_LAST_SIG :: string

text \<open>The token a request carries, in the header \<open>X-PrinterPal-Token\<close> or in the query.\<close>

record request =
  token_header :: "string option"
  token_arg :: "string option"

text \<open>\<open>jsonify(body)\<close> with its status, or the response of \<open>abort(status)\<close>.\<close>

datatype response = Jsonify config nat | Abort nat

text \<open>The truth value of what \<open>dict.get\<close> returned.\<close>

definition truthy :: "json option \<Rightarrow> bool" where
  "truthy v =
     (case v of
        None \<Rightarrow> False
      | Some JNull \<Rightarrow> False
      | Some (JBool b) \<Rightarrow> b
      | Some (JInt i) \<Rightarrow> i \<noteq> 0
      | Some (JFloat f) \<Rightarrow> f \<noteq> Finite 0
      | Some (JStr s) \<Rightarrow> s \<noteq> []
      | Some (JList xs) \<Rightarrow> xs \<noteq> []
      | Some (JObj d) \<Rightarrow> d \<noteq> fmempty)"

text \<open>\<open>cfg.get(sec, {})\<close>, on which \<open>.get\<close> is then called.\<close>

definition get_section :: "config \<Rightarrow> string \<Rightarrow> error + config" where
  "get_section cfg sec =
     (case fmlookup cfg sec of
        None \<Rightarrow> Inr fmempty
      | Some (JObj d) \<Rightarrow> Inr d
      | Some _ \<Rightarrow> Inl (OtherError ''AttributeError''))"

text \<open>\<open>str(e)\<close>.\<close>

fun error_str :: "error \<Rightarrow> string" where
  "error_str (ValueError m) = m"
| "error_str (PrinterPalError m) = m"
| "error_str (CommandError m r) = m"
| "error_str (OtherError m) = m"

text \<open>\<open>(sec.get("token") or "").strip()\<close>.\<close>

definition expected_token :: "config \<Rightarrow> error + string" where
  "expected_token sec =
     (if \<not> truthy (fmlookup sec ''token'') then Inr (strip [])
      else case fmlookup sec ''token'' of
             Some (JStr s) \<Rightarrow> Inr (strip s)
           | _ \<Rightarrow> Inl (OtherError ''AttributeError''))"

text \<open>\<open>request.headers.get("X-PrinterPal-Token") or request.args.get("token")\<close>.\<close>

definition provided_token :: "request \<Rightarrow> string option" where
  "provided_token req =
     (case token_header req of
        None \<Rightarrow> token_arg req
      | Some h \<Rightarrow> if h = [] then token_arg req else Some h)"

text \<open>The decorator \<open>@require_token\<close> around a handler \<open>fn\<close>.\<close>

definition require_token :: "app \<Rightarrow> request \<Rightarrow> response io \<Rightarrow> response io" where
  "require_token a req fn tr =
     (case get_section (PP_CFG a) ''security'' of
        Inl e \<Rightarrow> (Inl e, tr)
      | Inr sec \<Rightarrow>
          if \<not> truthy (fmlookup sec ''require_token'') then fn tr
          else case expected_token sec of
                 Inl e \<Rightarrow> (Inl e, tr)
               | Inr expected \<Rightarrow>
                   if expected = [] then (Inr (Abort 503), tr)
                   else if provided_token req \<noteq> Some expected then (Inr (Abort 401), tr)
                   else fn tr)"

text \<open>\<open>POST /api/airprint/ensure\<close>.\<close>

definition api_airprint_ensure :: "env \<Rightarrow> app \<Rightarrow> request \<Rightarrow> response io" where
  "api_airprint_ensure os a req =
     require_token a req
       (\<lambda>tr. case ensure_airprint_via_root_helper os 45 tr of
               (Inr out, tr') \<Rightarrow> (Inr (Jsonify out 200), tr')
             | (Inl e, tr') \<Rightarrow>
                 (Inr (Jsonify (fmap_of_list [(''ok'', JBool False),
                                              (''error'', JStr (error_str e))]) 500), tr'))"

text \<open>
  The part of \<open>api_status\<close> that re-ensures AirPrint, from the assignment of
  \<open>auto_airprint\<close> to the end of the \<open>try\<close> statement. \<open>printer_names\<close> is
  \<open>[p.get("name", "") for p in printers]\<close>, for the \<open>printers\<close> the handler listed
  before. The result is the state of \<open>app.config\<close> afterwards. Inside the \<open>try\<close>,
  \<open>except Exception: pass\<close> swallows what \<open>ensure_airprint_via_root_helper\<close> raises,
  after \<open>finally\<close> has released the lock. \<open>lock.acquire(blocking=False)\<close> returns at
  once: \<open>False\<close> when the lock is held, and otherwise \<open>True\<close>, with the lock taken.
\<close>

definition api_status_airprint :: "env \<Rightarrow> string list \<Rightarrow> app \<Rightarrow> app io" where
  "api_status_airprint os printer_names a tr =
     (case get_section (PP_CFG a) ''airprint'' of
        Inl e \<Rightarrow> (Inl e, tr)
      | Inr sec \<Rightarrow>
          if \<not> truthy (fmlookup sec ''auto_enable'') then (Inr a, tr)
          else case cups_available os tr of
                 (Inl e, tr1) \<Rightarrow> (Inl e, tr1)
               | (Inr False, tr1) \<Rightarrow> (Inr a, tr1)
               | (Inr True, tr1) \<Rightarrow>
                   let sig = join '','' (sort (filter (\<lambda>n. n \<noteq> []) printer_names));
                       now = monotonic os tr1;
                       last_t = PP_AIRPRINT_LAST_ENSURE a;
                       last_sig = PP_AIRPRINT_LAST_SIG a
                   in if sig \<noteq> last_sig \<or> 600 < fsub now last_t
                      then if lock_held os tr1 then (Inr a, tr1)
                           else case ensure_airprint_via_root_helper os 45 (tr1 @ [LockAcquire]) of
                                  (Inl e, tr2) \<Rightarrow> (Inr a, tr2 @ [LockRelease])
                                | (Inr out, tr2) \<Rightarrow>
                                    (Inr (a\<lparr>PP_AIRPRINT_LAST_ENSURE := now,
                                             PP_AIRPRINT_LAST_SIG := sig\<rparr>),
                                     tr2 @ [LockRelease])
                      else (Inr a, tr1))"

section \<open>Contracts of the environment\<close>

text \<open>
  \<open>tempfile.mkstemp\<close> creates a file that did not exist (it opens with \<open>O_EXCL\<close>), and
  a path persists when nothing removes it while the program runs.
\<close>

definition mkstemp_fresh :: "env \<Rightarrow> bool" where
  "mkstemp_fresh os =
     (\<forall>tr pre suf p. mkstemp os tr pre suf = Inr p \<longrightarrow> \<not> path_exists os tr p)"

definition path_persists :: "env \<Rightarrow> trace \<Rightarrow> string \<Rightarrow> bool" where
  "path_persists os tr p = (\<forall>ext. path_exists os (tr @ ext) p)"

section \<open>A concrete environment\<close>

text \<open>
  An environment to run the model in: the files \<open>files\<close> exist, and so does every path a
  traced event created; every child process ends as \<open>c\<close>; every image file decodes to
  \<open>im\<close>; \<open>mkstemp\<close> returns a name longer than the name of any existing file; no other
  thread holds the lock.
\<close>

fun created :: "trace \<Rightarrow> string list" where
  "created [] = []"
| "created (MkSTemp p # tr) = p # created tr"
| "created (Subprocess av t # tr) =
     (if av \<noteq> [] \<and> hd av = ''pdftoppm'' then [last av @ ''.png''] else []) @ created tr"
| "created (_ # tr) = created tr"

definition fixture :: "child \<Rightarrow> string list \<Rightarrow> rgb image \<Rightarrow> env" where
  "fixture c files im = \<lparr>
     path_exists = (\<lambda>tr p. p \<in> set files \<or> p \<in> set (created tr)),
     environ = (\<lambda>tr. Map.empty),
     subprocess_run = (\<lambda>tr av e t. c),
     monotonic = (\<lambda>tr. 0),
     image_open = (\<lambda>tr p. Inr im),
     mkdtemp = (\<lambda>tr pre. Inr (''/tmp/'' @ pre @ str_nat (length tr))),
     mkstemp = (\<lambda>tr pre suf. Inr (''/tmp/'' @ pre
        @ replicate (Suc (sum_list (map length (files @ created tr)))) (CHR ''x'') @ suf)),
     write_file = (\<lambda>tr p b. None),
     floyd_steinberg = (\<lambda>g. g),
     img2pdf_convert = (\<lambda>bs. None),
     lock_held = (\<lambda>tr. False) \<rparr>"

definition demo_png :: env where
  "demo_png = fixture (Completed 0 [] []) [''/u/a.png''] [[(0, 0, 0)]]"

definition demo_pdf :: env where
  "demo_pdf = fixture (Completed 0 (''Pages: 40'' @ [CHR 0x0A]) []) [''/u/a.pdf''] [[(0, 0, 0)]]"

definition demo_xyz :: env where
  "demo_xyz = fixture (Completed 0 [] []) [''/u/a.xyz''] [[(0, 0, 0)]]"

definition demo_wide :: env where
  "demo_wide = fixture (Completed 0 [] []) [''/u/a.png''] (replicate 500 (replicate 1000 (9, 9, 9)))"

definition demo_helper :: env where
  "demo_helper = fixture (Completed 0 (''ok'' @ [CHR 0x0A]) [])
     [''/usr/local/sbin/printerpal-root''] [[(0, 0, 0)]]"

text \<open>The same, at a time when another thread holds the lock.\<close>

definition demo_locked :: env where
  "demo_locked = demo_helper \<lparr>lock_held := (\<lambda>tr. True)\<rparr>"

definition demo_token :: string where
  "demo_token = ''0123456789abcdef0123456789abcdef0123456789abcdef0123456789abcdef''"

definition demo_token2 :: string where
  "demo_token2 = ''fedcba9876543210fedcba9876543210fedcba9876543210fedcba9876543210''"

definition demo_cfg :: config where
  "demo_cfg = fmap_of_list [
     (''app'', JObj (fmap_of_list [(''port'', JFloat (Finite (80807 / 10))), (''theme'', JStr ''dark'')])),
     (''extra'', JList [JInt 1, JNull])]"

definition demo_app :: app where
  "demo_app = \<lparr>PP_CFG = default_config demo_token, PP_AIRPRINT_LAST_ENSURE = 0,
                PP_AIRPRINT_LAST_SIG = []\<rparr>"

definition demo_request :: request where
  "demo_request = \<lparr>token_header = None, token_arg = None\<rparr>"

definition demo_nan :: config where
  "demo_nan = fmap_of_list [(''extra'', JFloat (NaN 1))]"

definition demo_nan_validated :: config where
  "demo_nan_validated = fmupd ''extra'' (JFloat (NaN 1)) (default_config demo_token)"

definition demo_nan_reloaded :: config where
  "demo_nan_reloaded = fmupd ''extra'' (JFloat (NaN decoder_NaN)) (default_config demo_token)"

definition demo_validated :: config where
  "demo_validated = fmap_of_list [
     (''app'', JObj (fmap_of_list [
        (''host'', JStr ''0.0.0.0''),
        (''port'', JInt 8080),
        (''secret_key'', JStr demo_token),
        (''max_upload_mb'', JInt 25),
        (''theme'', JStr ''dark'')])),
     (''printing'', JObj (fmap_of_list [
        (''default_printer'', JStr ''''),
        (''preview_dpi'', JInt 150),
        (''print_dpi'', JInt 200),
        (''max_pdf_pages_process'', JInt 30),
        (''default_copies'', JInt 1),
        (''default_mode'', JStr ''grayscale''),
        (''bw_threshold'', JInt 180)])),
     (''airprint'', JObj (fmap_of_list [
        (''auto_enable'', JBool True)])),
     (''ui'', JObj (fmap_of_list [
        (''default_dark_mode'', JBool False),
        (''default_eink_mode'', JBool False)])),
     (''security'', JObj (fmap_of_list [
        (''require_token'', JBool False),
        (''token'', JStr '''')])),
     (''extra'', JList [JInt 1, JNull])]"

section \<open>Properties\<close>

declare str_nat.simps [simp del]

subsection \<open>The concrete environment\<close>

lemma fixture_sel [simp]:
  "path_exists (fixture c files im) tr p = (p \<in> set files \<or> p \<in> set (created tr))"
  "environ (fixture c files im) tr = Map.empty"
  "subprocess_run (fixture c files im) tr av e t = c"
  "monotonic (fixture c files im) tr = 0"
  "image_open (fixture c files im) tr p = Inr im"
  "mkdtemp (fixture c files im) tr pre = Inr (''/tmp/'' @ pre @ str_nat (length tr))"
  "mkstemp (fixture c files im) tr pre suf = Inr (''/tmp/'' @ pre
        @ replicate (Suc (sum_list (map length (files @ created tr)))) (CHR ''x'') @ suf)"
  "write_file (fixture c files im) tr p b = None"
  "floyd_steinberg (fixture c files im) g = g"
  "img2pdf_convert (fixture c files im) bs = None"
  "lock_held (fixture c files im) tr = False"
  by (simp_all add: fixture_def)

lemma length_le_sum_list: "x \<in> set xs \<Longrightarrow> length x \<le> sum_list (map length xs)"
  by (induction xs) auto

lemma fixture_fresh: "mkstemp_fresh (fixture c files im)"
  unfolding mkstemp_fresh_def
proof (intro allI impI)
  fix tr pre suf p
  assume "mkstemp (fixture c files im) tr pre suf = Inr p"
  then have p: "p = ''/tmp/'' @ pre
        @ replicate (Suc (sum_list (map length (files @ created tr)))) (CHR ''x'') @ suf"
    by simp
  have "p \<notin> set (files @ created tr)"
  proof
    assume "p \<in> set (files @ created tr)"
    then have "length p \<le> sum_list (map length (files @ created tr))"
      by (rule length_le_sum_list)
    with p show False by simp
  qed
  then show "\<not> path_exists (fixture c files im) tr p" by simp
qed

lemma fixture_persists: "src \<in> set files \<Longrightarrow> path_persists (fixture c files im) tr src"
  by (simp add: path_persists_def)

lemma round_double_0 [simp]: "round_double 0 = 0"
  by (simp add: round_double_def)

subsection \<open>Traces only grow\<close>

lemma run_cmd_prefix: "run_cmd os av t c env tr = (r, tr') \<Longrightarrow> prefix tr tr'"
  by (auto simp: run_cmd_def Let_def split: if_splits child.splits)

lemma pdf_page_count_prefix: "pdf_page_count os p tr = (r, tr') \<Longrightarrow> prefix tr tr'"
  by (auto simp: pdf_page_count_def split: if_splits prod.splits sum.splits option.splits
      dest: run_cmd_prefix)

lemma render_pdf_page_prefix:
  "render_pdf_page_to_png os p pg dpi tr = (r, tr') \<Longrightarrow> prefix tr tr'"
  by (auto simp: render_pdf_page_to_png_def Let_def split: if_splits prod.splits sum.splits
      dest!: run_cmd_prefix elim: prefixE)

lemma render_pages_prefix:
  "render_pages os src mode dpi thr ps tr = (r, tr') \<Longrightarrow> prefix tr tr'"
proof (induction ps arbitrary: tr r tr')
  case Nil
  then show ?case by simp
next
  case (Cons p ps)
  then show ?case
    by (auto split: prod.splits sum.splits dest!: render_pdf_page_prefix
        intro: prefix_order.trans)
qed

lemma open_image_trace: "open_image os p tr = (r, tr') \<Longrightarrow> tr' = tr"
  by (auto simp: open_image_def split: sum.splits)

lemma write_temp_pdf_ok:
  "write_temp_pdf os b tr = (Inr p, tr') \<Longrightarrow>
     mkstemp os tr ''printerpal_print_'' ''.pdf'' = Inr p \<and> tr' = tr @ [MkSTemp p, WriteFile p b]"
  by (auto simp: write_temp_pdf_def split: sum.splits option.splits)

lemma fresh_neq:
  assumes "mkstemp_fresh os" "path_persists os tr src" "prefix tr tr2"
    "mkstemp os tr2 pre suf = Inr p"
  shows "p \<noteq> src"
proof
  assume "p = src"
  from assms(3) obtain ext where "tr2 = tr @ ext" by (auto elim: prefixE)
  with assms(2) have "path_exists os tr2 src" by (simp add: path_persists_def)
  moreover from assms(1,4) have "\<not> path_exists os tr2 p" by (auto simp: mkstemp_fresh_def)
  ultimately show False using \<open>p = src\<close> by simp
qed

subsection \<open>The command runner\<close>

text \<open>
  Claim C7. \<open>run_cmd\<close> raises \<open>CommandError\<close> exactly when \<open>check\<close> is set and the child
  completed with a return code other than 0; the exception carries the result of that
  child (its argv, return code, stdout and stderr); and without \<open>check\<close> a child that
  completed, whatever its return code, is returned as a \<open>CmdResult\<close>.
\<close>

theorem run_cmd_CommandError_iff:
  "((\<exists>m res. fst (run_cmd os av t check env tr) = Inl (CommandError m res)) \<longleftrightarrow>
      (check \<and> av \<noteq> [] \<and>
       (\<exists>rc out err. subprocess_run os tr av (child_environ os tr env) t = Completed rc out err
                     \<and> rc \<noteq> 0)))
   \<and> (\<forall>m res. fst (run_cmd os av t check env tr) = Inl (CommandError m res) \<longrightarrow>
         argv res = av \<and>
         subprocess_run os tr av (child_environ os tr env) t
           = Completed (returncode res) (stdout res) (stderr res))
   \<and> (\<not> check \<and> av \<noteq> [] \<longrightarrow>
        (\<forall>rc out err. subprocess_run os tr av (child_environ os tr env) t = Completed rc out err
           \<longrightarrow>
           (\<exists>res. fst (run_cmd os av t check env tr) = Inr res \<and> argv res = av
                  \<and> returncode res = rc \<and> stdout res = out \<and> stderr res = err)))"
  by (cases "subprocess_run os tr av (child_environ os tr env) t")
     (auto simp: run_cmd_def Let_def)

theorem run_cmd_CommandError_iff_witness:
  "(\<exists>m res. fst (run_cmd (fixture (Completed 1 [] ''boom'') [] []) [''false''] 8 True None [])
              = Inl (CommandError m res))
   \<and> (\<exists>res. fst (run_cmd (fixture (Completed 1 [] ''boom'') [] []) [''false''] 8 False None [])
              = Inr res \<and> returncode res = 1)
   \<and> \<not> (\<exists>m res. fst (run_cmd (fixture (Completed 0 [] []) [] []) [''true''] 8 True None [])
              = Inl (CommandError m res))"
  using run_cmd_CommandError_iff
      [of "fixture (Completed 1 [] ''boom'') [] []" "[''false'']" 8 True None "[]"]
    run_cmd_CommandError_iff
      [of "fixture (Completed 1 [] ''boom'') [] []" "[''false'']" 8 False None "[]"]
    run_cmd_CommandError_iff
      [of "fixture (Completed 0 [] []) [] []" "[''true'']" 8 True None "[]"]
  by auto

subsection \<open>The print queue\<close>

text \<open>
  Claim C5. For every number of copies below 1 or above 99, \<open>print_file\<close> raises
  \<open>PrinterPalError\<close> (the file does not exist, or the copies are out of range) and leaves
  the trace as it was: \<open>subprocess.run\<close> is not called.
\<close>

theorem print_file_copies_out_of_range:
  "copies < 1 \<or> 99 < copies \<Longrightarrow>
     print_file os file_path printer copies title options timeout_s tr =
       (Inl (PrinterPalError (if path_exists os tr file_path
                              then ''copies must be between 1 and 99''
                              else ''File does not exist: '' @ file_path)), tr)"
  by (auto simp: print_file_def)

theorem print_file_copies_out_of_range_witness:
  "print_file demo_png ''/u/a.png'' None 100 ''t'' None 30 [] =
     (Inl (PrinterPalError ''copies must be between 1 and 99''), [])"
  using print_file_copies_out_of_range [of 100 demo_png "''/u/a.png''" None "''t''" None 30 "[]"]
  by (simp add: demo_png_def)

text \<open>
  The job ids the pattern accepts: the non-empty strings over the class, and those
  followed by one newline. Every other id is refused before any process is run.
\<close>

lemma job_id_match_iff:
  "job_id_match s \<longleftrightarrow>
     (s \<noteq> [] \<and> list_all job_id_char s)
     \<or> (\<exists>b. s = b @ [CHR 0x0A] \<and> b \<noteq> [] \<and> list_all job_id_char b)"
proof
  assume m: "job_id_match s"
  let ?b = "takeWhile job_id_char s"
  from m have ne: "?b \<noteq> []"
    and r: "dropWhile job_id_char s = [] \<or> dropWhile job_id_char s = [CHR 0x0A]"
    by (simp_all add: job_id_match_def Let_def)
  have all: "list_all job_id_char ?b"
    by (simp add: list_all_iff) (meson set_takeWhileD)
  have s: "s = ?b @ dropWhile job_id_char s" by simp
  from r show "(s \<noteq> [] \<and> list_all job_id_char s)
     \<or> (\<exists>b. s = b @ [CHR 0x0A] \<and> b \<noteq> [] \<and> list_all job_id_char b)"
  proof
    assume "dropWhile job_id_char s = []"
    with s have "s = ?b" by simp
    with ne all show ?thesis by metis
  next
    assume "dropWhile job_id_char s = [CHR 0x0A]"
    with s have "s = ?b @ [CHR 0x0A]" by simp
    with ne all show ?thesis by blast
  qed
next
  have nl: "\<not> job_id_char (CHR 0x0A)" by (simp add: job_id_char_def)
  assume "(s \<noteq> [] \<and> list_all job_id_char s)
     \<or> (\<exists>b. s = b @ [CHR 0x0A] \<and> b \<noteq> [] \<and> list_all job_id_char b)"
  then show "job_id_match s"
  proof
    assume a: "s \<noteq> [] \<and> list_all job_id_char s"
    then have tw: "takeWhile job_id_char s = s" and dw: "dropWhile job_id_char s = []"
      by (simp_all add: list_all_iff)
    from a show ?thesis unfolding job_id_match_def Let_def tw dw by simp
  next
    assume "\<exists>b. s = b @ [CHR 0x0A] \<and> b \<noteq> [] \<and> list_all job_id_char b"
    then obtain b where b: "s = b @ [CHR 0x0A]" "b \<noteq> []" "list_all job_id_char b" by blast
    from b(3) nl have tw: "takeWhile job_id_char s = b"
      and dw: "dropWhile job_id_char s = [CHR 0x0A]"
      unfolding b(1) by (simp_all add: list_all_iff takeWhile_append2 dropWhile_append2)
    from b(2) show ?thesis unfolding job_id_match_def Let_def tw dw by simp
  qed
qed

lemma cancel_job_rejects:
  "\<not> job_id_match job_id \<Longrightarrow>
   cancel_job os job_id tr = (Inl (PrinterPalError ''Invalid job id''), tr)"
  by (simp add: cancel_job_def)

text \<open>
  Claim C6, at the job id \<open>12\<close> followed by a newline: the id is accepted, and
  \<open>cancel\<close> is run with it.
\<close>

theorem cancel_job_trailing_newline:
  "cancel_job os (''12'' @ [CHR 0x0A]) tr =
     (case run_cmd os [''cancel'', ''12'' @ [CHR 0x0A]] 6 True None tr of
        (Inl e, tr') \<Rightarrow> (Inl e, tr') | (Inr _, tr') \<Rightarrow> (Inr (), tr'))
   \<and> snd (cancel_job os (''12'' @ [CHR 0x0A]) tr)
       = tr @ [Subprocess [''cancel'', ''12'' @ [CHR 0x0A]] 6]"
  by (cases "subprocess_run os tr [''cancel'', ''12'' @ [CHR 0x0A]] (child_environ os tr None) 6")
     (simp_all add: cancel_job_def job_id_match_def job_id_char_def safe_timeout_def
        run_cmd_def Let_def)

subsection \<open>Preparing a file for printing\<close>

lemma prepare_raw:
  "path_exists os tr src \<Longrightarrow>
   prepare_print_file os src ''raw'' dpi maxp thr tr =
     (Inr (src, \<lparr>meta_source = src, meta_mode = ''raw'', meta_print_dpi = dpi,
                 meta_pages = None, meta_prepared = False, meta_output = None\<rparr>), tr)"
  by (simp add: prepare_print_file_def Let_def)

lemma prepare_nonraw:
  assumes "mode \<noteq> ''raw''" "prepare_print_file os src mode dpi maxp thr tr = (Inr (p, m), tr')"
  shows "meta_prepared m \<and> meta_output m = Some p \<and>
         (\<exists>tr2 b. prefix tr tr2 \<and> mkstemp os tr2 ''printerpal_print_'' ''.pdf'' = Inr p
                   \<and> tr' = tr2 @ [MkSTemp p, WriteFile p b])"
  using assms
  apply (simp add: prepare_print_file_def Let_def split: if_splits prod.splits sum.splits)
   apply (auto dest!: write_temp_pdf_ok pdf_page_count_prefix render_pages_prefix open_image_trace
      intro: prefix_order.trans)
  done

lemma prepare_demo_png_bw:
  "prepare_print_file demo_png ''/u/a.png'' ''bw'' 200 30 180 [] =
     (Inr (''/tmp/printerpal_print_xxxxxxxxx.pdf'',
          \<lparr>meta_source = ''/u/a.png'', meta_mode = ''bw'', meta_print_dpi = 200,
            meta_pages = None, meta_prepared = True,
            meta_output = Some ''/tmp/printerpal_print_xxxxxxxxx.pdf''\<rparr>),
      [MkSTemp ''/tmp/printerpal_print_xxxxxxxxx.pdf'',
       WriteFile ''/tmp/printerpal_print_xxxxxxxxx.pdf'' (PillowPdf [[[(0, 0, 0)]]])])"
  by (simp add: demo_png_def prepare_print_file_def Let_def lower_def lower_char_def
      splitext_ext_def basename_def SUPPORTED_IMAGE_EXTS_def open_image_def apply_mode_def
      write_temp_pdf_def convert_RGB_def convert_L_def point_threshold_def binarize_def
      rgb2l_def l2rgb_def)

text \<open>
  Claim C2. On a source that exists, mode \<open>raw\<close> returns the source path itself with
  \<open>prepared = False\<close> and leaves the trace as it was (no temporary file is made). Every
  other mode that succeeds returns, with \<open>prepared = True\<close>, the path \<open>mkstemp\<close> created
  for it; that path differs from the source path, since \<open>mkstemp\<close> creates a file that
  did not exist and the source is still there.
\<close>

theorem prepare_print_file_raw_or_prepared:
  "(path_exists os tr src \<longrightarrow>
      prepare_print_file os src ''raw'' dpi maxp thr tr =
        (Inr (src, \<lparr>meta_source = src, meta_mode = ''raw'', meta_print_dpi = dpi,
                    meta_pages = None, meta_prepared = False, meta_output = None\<rparr>), tr))
   \<and> (\<forall>p m tr'. mode \<noteq> ''raw''
          \<and> prepare_print_file os src mode dpi maxp thr tr = (Inr (p, m), tr')
        \<longrightarrow> meta_prepared m \<and> meta_output m = Some p \<and> MkSTemp p \<in> set tr'
            \<and> (mkstemp_fresh os \<and> path_persists os tr src \<longrightarrow> p \<noteq> src))"
proof (intro conjI allI impI)
  assume "path_exists os tr src"
  then show "prepare_print_file os src ''raw'' dpi maxp thr tr =
        (Inr (src, \<lparr>meta_source = src, meta_mode = ''raw'', meta_print_dpi = dpi,
                    meta_pages = None, meta_prepared = False, meta_output = None\<rparr>), tr)"
    by (rule prepare_raw)
next
  fix p m tr'
  assume a: "mode \<noteq> ''raw''
    \<and> prepare_print_file os src mode dpi maxp thr tr = (Inr (p, m), tr')"
  from prepare_nonraw [of mode os src dpi maxp thr tr p m tr'] a
  obtain tr2 b where f: "meta_prepared m" "meta_output m = Some p" "prefix tr tr2"
    "mkstemp os tr2 ''printerpal_print_'' ''.pdf'' = Inr p"
    "tr' = tr2 @ [MkSTemp p, WriteFile p b]"
    by blast
  show "meta_prepared m" by (rule f(1))
  show "meta_output m = Some p" by (rule f(2))
  show "MkSTemp p \<in> set tr'" using f(5) by simp
  assume "mkstemp_fresh os \<and> path_persists os tr src"
  then show "p \<noteq> src" using fresh_neq f(3,4) by blast
qed

theorem prepare_print_file_raw_or_prepared_witness:
  "path_exists demo_png [] ''/u/a.png''
   \<and> prepare_print_file demo_png ''/u/a.png'' ''raw'' 200 30 180 [] =
        (Inr (''/u/a.png'', \<lparr>meta_source = ''/u/a.png'', meta_mode = ''raw'',
               meta_print_dpi = 200, meta_pages = None, meta_prepared = False,
               meta_output = None\<rparr>), [])
   \<and> prepare_print_file demo_png ''/u/a.png'' ''bw'' 200 30 180 [] =
        (Inr (''/tmp/printerpal_print_xxxxxxxxx.pdf'',
             \<lparr>meta_source = ''/u/a.png'', meta_mode = ''bw'', meta_print_dpi = 200,
               meta_pages = None, meta_prepared = True,
               meta_output = Some ''/tmp/printerpal_print_xxxxxxxxx.pdf''\<rparr>),
         [MkSTemp ''/tmp/printerpal_print_xxxxxxxxx.pdf'',
          WriteFile ''/tmp/printerpal_print_xxxxxxxxx.pdf'' (PillowPdf [[[(0, 0, 0)]]])])
   \<and> mkstemp_fresh demo_png \<and> path_persists demo_png [] ''/u/a.png''
   \<and> ''/tmp/printerpal_print_xxxxxxxxx.pdf'' \<noteq> ''/u/a.png''"
proof -
  have e: "path_exists demo_png [] ''/u/a.png''"
    by (simp add: demo_png_def)
  have f: "mkstemp_fresh demo_png"
    unfolding demo_png_def by (rule fixture_fresh)
  have g: "path_persists demo_png [] ''/u/a.png''"
    unfolding demo_png_def by (rule fixture_persists) simp
  show ?thesis
    using prepare_print_file_raw_or_prepared
      [of demo_png "[]" "''/u/a.png''" 200 30 180 "''bw''"] e f g prepare_demo_png_bw
    by simp
qed

lemma pdf_page_count_demo:
  "pdf_page_count demo_pdf ''/u/a.pdf'' [] = (Inr 40, [Subprocess [''pdfinfo'', ''/u/a.pdf''] 8])"
  by code_simp

lemma pdf_page_count_trace:
  "pdf_page_count os src tr = (Inr pages, tr1) \<Longrightarrow>
     path_exists os tr src \<and> tr1 = tr @ [Subprocess [''pdfinfo'', src] 8]"
  by (auto simp: pdf_page_count_def run_cmd_def Let_def
      split: if_splits prod.splits sum.splits option.splits child.splits)

lemma ext_demo_pdf: "lower (splitext_ext ''/u/a.pdf'') = ''.pdf''"
  by code_simp

lemma ext_demo_xyz: "lower (splitext_ext ''/u/a.xyz'') = ''.xyz''"
  by code_simp

text \<open>
  Claim C3. For a source whose extension is \<open>.pdf\<close>, a mode other than \<open>raw\<close> and a page
  count (as \<open>pdf_page_count\<close> returns it) above \<open>max_pdf_pages\<close>, \<open>prepare_print_file\<close>
  raises \<open>PrinterPalError\<close>, and the only event it adds to the trace is the call of
  \<open>pdfinfo\<close>: \<open>pdftoppm\<close> is never run.
\<close>

theorem prepare_print_file_too_many_pages:
  "mode \<noteq> ''raw'' \<Longrightarrow> lower (splitext_ext src) = ''.pdf'' \<Longrightarrow>
   pdf_page_count os src tr = (Inr pages, tr1) \<Longrightarrow> maxp < pages \<Longrightarrow>
     (\<exists>msg. prepare_print_file os src mode dpi maxp thr tr = (Inl (PrinterPalError msg), tr1))
     \<and> tr1 = tr @ [Subprocess [''pdfinfo'', src] 8]"
  by (frule pdf_page_count_trace) (simp add: prepare_print_file_def Let_def)

theorem prepare_print_file_too_many_pages_witness:
  "''bw'' \<noteq> ''raw'' \<and> lower (splitext_ext ''/u/a.pdf'') = ''.pdf''
   \<and> pdf_page_count demo_pdf ''/u/a.pdf'' [] = (Inr 40, [Subprocess [''pdfinfo'', ''/u/a.pdf''] 8])
   \<and> (30::int) < 40
   \<and> (\<exists>msg. prepare_print_file demo_pdf ''/u/a.pdf'' ''bw'' 200 30 180 []
          = (Inl (PrinterPalError msg), [Subprocess [''pdfinfo'', ''/u/a.pdf''] 8]))"
  using prepare_print_file_too_many_pages
    [of "''bw''" "''/u/a.pdf''" demo_pdf "[]" 40 "[Subprocess [''pdfinfo'', ''/u/a.pdf''] 8]"
        30 200 180]
    pdf_page_count_demo ext_demo_pdf
  by simp

text \<open>
  Claim C10. On a source that exists, whatever its extension, mode \<open>raw\<close> succeeds with
  the source path and \<open>prepared = False\<close>. The error "Unsupported file type for printing"
  is never the result of mode \<open>raw\<close>, and it is the result of every other mode on an
  existing source whose extension is neither \<open>.pdf\<close> nor one of the image extensions.
\<close>

theorem prepare_print_file_raw_any_extension:
  "(path_exists os tr src \<longrightarrow>
      prepare_print_file os src ''raw'' dpi maxp thr tr =
        (Inr (src, \<lparr>meta_source = src, meta_mode = ''raw'', meta_print_dpi = dpi,
                    meta_pages = None, meta_prepared = False, meta_output = None\<rparr>), tr))
   \<and> (fst (prepare_print_file os src mode dpi maxp thr tr)
         = Inl (PrinterPalError ''Unsupported file type for printing'') \<longrightarrow> mode \<noteq> ''raw'')
   \<and> (path_exists os tr src \<and> mode \<noteq> ''raw'' \<and> lower (splitext_ext src) \<noteq> ''.pdf''
        \<and> lower (splitext_ext src) \<notin> set SUPPORTED_IMAGE_EXTS \<longrightarrow>
      prepare_print_file os src mode dpi maxp thr tr
        = (Inl (PrinterPalError ''Unsupported file type for printing''), tr))"
  by (auto simp: prepare_print_file_def Let_def)

theorem prepare_print_file_raw_any_extension_witness:
  "path_exists demo_xyz [] ''/u/a.xyz''
   \<and> prepare_print_file demo_xyz ''/u/a.xyz'' ''raw'' 200 30 180 [] =
        (Inr (''/u/a.xyz'', \<lparr>meta_source = ''/u/a.xyz'', meta_mode = ''raw'',
               meta_print_dpi = 200, meta_pages = None, meta_prepared = False,
               meta_output = None\<rparr>), [])
   \<and> ''bw'' \<noteq> ''raw''
   \<and> lower (splitext_ext ''/u/a.xyz'') \<noteq> ''.pdf''
   \<and> lower (splitext_ext ''/u/a.xyz'') \<notin> set SUPPORTED_IMAGE_EXTS
   \<and> prepare_print_file demo_xyz ''/u/a.xyz'' ''bw'' 200 30 180 []
        = (Inl (PrinterPalError ''Unsupported file type for printing''), [])"
proof -
  have e: "path_exists demo_xyz [] ''/u/a.xyz''"
    by (simp add: demo_xyz_def)
  show ?thesis
    using prepare_print_file_raw_any_extension
      [of demo_xyz "[]" "''/u/a.xyz''" 200 30 180 "''bw''"] e ext_demo_xyz
    by (simp add: SUPPORTED_IMAGE_EXTS_def)
qed

subsection \<open>The mode filters\<close>

lemma rgb2l_l2rgb [simp]: "rgb2l (l2rgb v) = v"
proof -
  have "(unat v * 19595 + unat v * 38470 + unat v * 7471 + 32768) div 65536 = unat v"
    by simp
  then show ?thesis by (simp add: rgb2l_def l2rgb_def)
qed

lemma binarize_binarize [simp]: "binarize t (binarize t p) = binarize t p"
proof (cases "t \<le> uint p")
  case True
  have "uint p < 256"
    using uint_lt2p [of p] by simp
  with True have "t \<le> 255" by linarith
  with True show ?thesis by (simp add: binarize_def)
next
  case False
  have "0 \<le> uint p" by simp
  with False have "\<not> t \<le> 0" by linarith
  with False show ?thesis by (simp add: binarize_def)
qed

lemma bw_twice:
  "convert_RGB (point_threshold t (convert_L (convert_RGB (point_threshold t (convert_L im)))))
     = convert_RGB (point_threshold t (convert_L im))"
  by (simp add: convert_RGB_def convert_L_def point_threshold_def comp_def)

lemma lower_bw: "lower ''bw'' = ''bw''"
  by code_simp

lemma lower_outline: "lower ''outline'' = ''outline''"
  by code_simp

lemma find_app:
  "find P (xs @ ys) = (case find P xs of None \<Rightarrow> find P ys | Some x \<Rightarrow> Some x)"
  by (induction xs) auto

lemma find_eq_upt: "n < m \<Longrightarrow> find (\<lambda>i. i = n) [0..<m] = Some n"
  by (induction m) (auto simp: find_app find_Some_iff split: option.splits)

lemma find_eq_rev_upt: "n < m \<Longrightarrow> find (\<lambda>i. i = n) (rev [0..<m]) = Some n"
  by (induction m) auto

lemma unat_gray_less: "unat (v :: gray) < 256"
  using unsigned_less [of v, where ?'a = nat] by simp

lemma histogram_1x1 [simp]: "histogram_lo [[v]] = unat v" "histogram_hi [[v]] = unat v"
  by (simp_all add: histogram_lo_def histogram_hi_def find_eq_upt find_eq_rev_upt
      unat_gray_less)

lemma outline_1x1:
  "apply_mode os [[p]] ''outline'' t = Inr [[l2rgb (binarize t (255 - rgb2l p))]]"
  by (simp add: apply_mode_def lower_outline Let_def convert_RGB_def convert_L_def
      point_threshold_def invert_def autocontrast_def find_edges_def img_width_def
      img_height_def autocontrast_lut_def)

lemma outline_black_white:
  "1 \<le> t \<Longrightarrow> t \<le> 254 \<Longrightarrow>
     apply_mode os [[(0, 0, 0)]] ''outline'' t = Inr [[(255, 255, 255)]]
     \<and> apply_mode os [[(255, 255, 255)]] ''outline'' t = Inr [[(0, 0, 0)]]"
  by (simp add: outline_1x1 rgb2l_def binarize_def l2rgb_def)

text \<open>
  Claim C4, as stated, fails for \<open>outline\<close>: on the image of one black pixel at threshold
  180, one application gives the white pixel and a second application gives the black
  pixel again.
\<close>

theorem outline_not_idempotent:
  "apply_mode demo_png [[(0, 0, 0)]] ''outline'' 180 = Inr [[(255, 255, 255)]]
   \<and> apply_mode demo_png [[(255, 255, 255)]] ''outline'' 180 = Inr [[(0, 0, 0)]]
   \<and> [[(0, 0, 0)]] \<noteq> ([[(255, 255, 255)]] :: rgb image)"
  using outline_black_white [of 180 demo_png] by simp

text \<open>
  Claim C4, amended. For every image and every threshold, \<open>bw\<close> applied to its own
  result returns that result. \<open>outline\<close> is not idempotent: at every threshold from 1 to
  254 it turns the one black pixel white and the one white pixel black.
\<close>

theorem bw_idempotent_outline_not:
  "(\<exists>im1. apply_mode os im ''bw'' t = Inr im1 \<and> apply_mode os im1 ''bw'' t = Inr im1)
   \<and> (1 \<le> t \<and> t \<le> 254 \<longrightarrow>
        apply_mode os [[(0, 0, 0)]] ''outline'' t = Inr [[(255, 255, 255)]]
        \<and> apply_mode os [[(255, 255, 255)]] ''outline'' t = Inr [[(0, 0, 0)]])"
  using outline_black_white [of t os]
  by (simp add: apply_mode_def lower_bw Let_def bw_twice)

theorem bw_idempotent_outline_not_witness:
  "(\<exists>im1. apply_mode demo_png [[(200, 100, 10)]] ''bw'' 180 = Inr im1
          \<and> apply_mode demo_png im1 ''bw'' 180 = Inr im1)
   \<and> (1::int) \<le> 180 \<and> (180::int) \<le> 254
   \<and> apply_mode demo_png [[(0, 0, 0)]] ''outline'' 180 = Inr [[(255, 255, 255)]]
   \<and> apply_mode demo_png [[(255, 255, 255)]] ''outline'' 180 = Inr [[(0, 0, 0)]]"
  using bw_idempotent_outline_not [of demo_png "[[(200, 100, 10)]]" 180]
  by simp

subsection \<open>Rounding to a double\<close>

lemma ilog2_bounds:
  assumes "0 < x"
  shows "power_int 2 (ilog2 x) \<le> x \<and> x < power_int 2 (ilog2 x + 1)"
proof -
  obtain p q where pq: "quotient_of x = (p, q)" by (cases "quotient_of x")
  then have q: "0 < q" and x: "x = of_int p / of_int q"
    using quotient_of_denom_pos [of x p q] quotient_of_div [of x p q] by simp_all
  from assms x q have p: "0 < p"
    by (simp add: zero_less_divide_iff)
  define bp where "bp = bitlen p"
  define bq where "bq = bitlen q"
  have bp: "2 ^ nat (bp - 1) \<le> p" "p < 2 ^ nat bp"
    using bitlen_bounds [OF p] by (simp_all add: bp_def)
  have bq: "2 ^ nat (bq - 1) \<le> q" "q < 2 ^ nat bq"
    using bitlen_bounds [OF q] by (simp_all add: bq_def)
  have bp1: "1 \<le> bp" using p bitlen_eq_zero_iff [of p] bitlen_nonneg [of p]
    unfolding bp_def by linarith
  have bq1: "1 \<le> bq" using q bitlen_eq_zero_iff [of q] bitlen_nonneg [of q]
    unfolding bq_def by linarith
  have P1: "(power_int 2 (bp - 1) :: rat) \<le> of_int p"
  proof -
    have "(power_int 2 (bp - 1) :: rat) = 2 ^ nat (bp - 1)"
      using bp1 by (simp add: power_int_def)
    also have "\<dots> = of_int (2 ^ nat (bp - 1))" by simp
    also have "\<dots> \<le> of_int p" using bp(1) by (simp only: of_int_le_iff)
    finally show ?thesis .
  qed
  have P2: "of_int p < (power_int 2 bp :: rat)"
  proof -
    have "(of_int p :: rat) < of_int (2 ^ nat bp)" using bp(2) by (simp only: of_int_less_iff)
    also have "\<dots> = power_int 2 bp" using bp1 by (simp add: power_int_def)
    finally show ?thesis .
  qed
  have Q1: "(power_int 2 (bq - 1) :: rat) \<le> of_int q"
  proof -
    have "(power_int 2 (bq - 1) :: rat) = 2 ^ nat (bq - 1)"
      using bq1 by (simp add: power_int_def)
    also have "\<dots> = of_int (2 ^ nat (bq - 1))" by simp
    also have "\<dots> \<le> of_int q" using bq(1) by (simp only: of_int_le_iff)
    finally show ?thesis .
  qed
  have Q2: "of_int q < (power_int 2 bq :: rat)"
  proof -
    have "(of_int q :: rat) < of_int (2 ^ nat bq)" using bq(2) by (simp only: of_int_less_iff)
    also have "\<dots> = power_int 2 bq" using bq1 by (simp add: power_int_def)
    finally show ?thesis .
  qed
  have qpos: "(0::rat) < of_int q" using q by simp
  have ppos: "(0::rat) < of_int p" using p by simp
  have up: "x < power_int 2 (bp - bq + 1)"
  proof -
    have "x * power_int 2 (bq - 1) \<le> x * of_int q"
      using Q1 assms by simp
    also have "\<dots> = of_int p" using x qpos by simp
    also have "\<dots> < power_int 2 bp" by (rule P2)
    finally have "x * power_int 2 (bq - 1) < power_int 2 bp" .
    moreover have "(power_int 2 bp :: rat) = power_int 2 (bp - bq + 1) * power_int 2 (bq - 1)"
      by (simp add: power_int_add [symmetric])
    ultimately show ?thesis by simp
  qed
  have lo: "power_int 2 (bp - bq - 1) < x"
  proof -
    have "power_int 2 (bp - bq - 1) * of_int q < power_int 2 (bp - bq - 1) * (power_int 2 bq :: rat)"
      using Q2 by simp
    also have "\<dots> = power_int 2 (bp - 1)"
      by (simp add: power_int_add [symmetric])
    also have "\<dots> \<le> of_int p" by (rule P1)
    also have "\<dots> = x * of_int q" using x qpos by simp
    finally show ?thesis using qpos by simp
  qed
  show ?thesis
  proof (cases "x < power_int 2 (bp - bq)")
    case True
    then have "ilog2 x = bp - bq - 1"
      by (simp add: ilog2_def pq bp_def bq_def Let_def)
    with True lo show ?thesis by simp
  next
    case False
    then have "ilog2 x = bp - bq"
      by (simp add: ilog2_def pq bp_def bq_def Let_def)
    with False up show ?thesis by simp
  qed
qed

lemma round_half_even_err: "\<bar>of_int (round_half_even m) - m\<bar> \<le> 1 / 2"
proof -
  have "of_int \<lfloor>m\<rfloor> \<le> m" "m < of_int \<lfloor>m\<rfloor> + 1" by linarith+
  then show ?thesis
    by (auto simp: round_half_even_def Let_def abs_le_iff)
qed

lemma round_half_even_of_int [simp]: "round_half_even (of_int k) = k"
  by (simp add: round_half_even_def)

lemma round_half_even_ge: "of_int k \<le> m \<Longrightarrow> k \<le> round_half_even m"
proof -
  assume "of_int k \<le> m"
  then have "k \<le> \<lfloor>m\<rfloor>" by (simp add: le_floor_iff)
  then show ?thesis by (auto simp: round_half_even_def Let_def)
qed

lemma round_double_pos_unfold:
  "0 < x \<Longrightarrow> round_double x =
     of_int (round_half_even (x / power_int 2 (ilog2 x - 52))) * power_int 2 (ilog2 x - 52)"
  by (simp add: round_double_def Let_def)

lemma pow2_split: "(power_int 2 e :: rat) = 2 ^ 52 * power_int 2 (e - 52)"
proof -
  have "(power_int 2 (e - 52) :: rat) = power_int 2 e / power_int 2 52"
    by (rule power_int_diff) simp
  then show ?thesis by simp
qed

lemma mant_bounds:
  assumes "0 < x"
  shows "2 ^ 52 \<le> x / power_int 2 (ilog2 x - 52)"
proof -
  have "power_int 2 (ilog2 x) \<le> x" using ilog2_bounds [OF assms] by simp
  moreover have "(power_int 2 (ilog2 x) :: rat) = 2 ^ 52 * power_int 2 (ilog2 x - 52)"
    by (rule pow2_split)
  moreover have "(0::rat) < power_int 2 (ilog2 x - 52)" by simp
  ultimately show ?thesis by (simp add: pos_le_divide_eq)
qed

lemma round_double_err:
  assumes "0 < x"
  shows "\<bar>round_double x - x\<bar> \<le> x / 2 ^ 53"
proof -
  define s :: rat where "s = power_int 2 (ilog2 x - 52)"
  define m where "m = x / s"
  have s: "0 < s" by (simp add: s_def)
  have x: "x = m * s" using s by (simp add: m_def)
  have m: "2 ^ 52 \<le> m" using mant_bounds [OF assms] by (simp add: m_def s_def)
  have rd: "round_double x = of_int (round_half_even m) * s"
    using assms by (simp add: round_double_pos_unfold m_def s_def)
  have "round_double x - x = of_int (round_half_even m) * s - m * s"
    by (simp only: rd) (simp add: x [symmetric])
  also have "\<dots> = (of_int (round_half_even m) - m) * s"
    by (simp add: algebra_simps)
  finally have "\<bar>round_double x - x\<bar> = \<bar>of_int (round_half_even m) - m\<bar> * s"
    using s by (simp add: abs_mult)
  also have "\<dots> \<le> (1 / 2) * s"
    using round_half_even_err [of m] s by (simp add: mult_right_mono)
  also have "\<dots> \<le> (m / 2 ^ 53) * s"
  proof -
    have "(1::rat) / 2 \<le> m / 2 ^ 53" using m by simp
    then show ?thesis using s by (simp add: mult_right_mono)
  qed
  also have "\<dots> = x / 2 ^ 53" by (simp add: x)
  finally show ?thesis .
qed

lemma round_double_ge_1:
  assumes "1 \<le> x"
  shows "1 \<le> round_double x"
proof -
  have pos: "0 < x" using assms by simp
  define s :: rat where "s = power_int 2 (ilog2 x - 52)"
  have s: "0 < s" by (simp add: s_def)
  have e: "0 \<le> ilog2 x"
  proof (rule ccontr)
    assume "\<not> 0 \<le> ilog2 x"
    then have "ilog2 x + 1 \<le> 0" by simp
    then have "(power_int 2 (ilog2 x + 1) :: rat) \<le> power_int 2 0"
      by (intro power_int_increasing) simp_all
    with ilog2_bounds [OF pos] assms show False by simp
  qed
  have "(2 ^ 52 :: rat) = of_int (2 ^ 52)" by simp
  then have "(2 ^ 52 :: int) \<le> round_half_even (x / s)"
    using mant_bounds [OF pos] by (intro round_half_even_ge) (simp add: s_def)
  then have "(of_int (2 ^ 52) :: rat) \<le> of_int (round_half_even (x / s))"
    by (simp only: of_int_le_iff)
  then have "2 ^ 52 * s \<le> round_double x"
    using s pos by (simp add: round_double_pos_unfold s_def mult_right_mono)
  moreover have "2 ^ 52 * s = power_int 2 (ilog2 x)"
    unfolding s_def by (rule pow2_split [symmetric])
  moreover have "(power_int 2 0 :: rat) \<le> power_int 2 (ilog2 x)"
    using e by (intro power_int_increasing) simp_all
  ultimately show ?thesis by simp
qed

lemma round_double_of_int:
  assumes "0 < n" "n < 2 ^ 53"
  shows "round_double (of_int n) = of_int n"
proof -
  define x :: rat where "x = of_int n"
  have pos: "0 < x" using assms by (simp add: x_def)
  have e: "ilog2 x - 52 \<le> 0"
  proof (rule ccontr)
    assume "\<not> ilog2 x - 52 \<le> 0"
    then have "53 \<le> ilog2 x" by simp
    then have "(power_int 2 53 :: rat) \<le> power_int 2 (ilog2 x)"
      by (intro power_int_increasing) simp_all
    also have "\<dots> \<le> x" using ilog2_bounds [OF pos] by simp
    finally have "(2 ^ 53 :: rat) \<le> of_int n" by (simp add: x_def power_int_def)
    moreover have "(of_int n :: rat) < of_int (2 ^ 53)" using assms(2) by (simp only: of_int_less_iff)
    ultimately show False by simp
  qed
  define k where "k = nat (- (ilog2 x - 52))"
  have pk: "(power_int 2 (ilog2 x - 52) :: rat) = 1 / 2 ^ k"
    using e by (simp add: power_int_def k_def field_simps)
  have "x / power_int 2 (ilog2 x - 52) = x * 2 ^ k"
    by (simp add: pk)
  also have "\<dots> = of_int (n * 2 ^ k)"
    by (simp add: x_def)
  finally have "x / power_int 2 (ilog2 x - 52) = of_int (n * 2 ^ k)" .
  then have "round_half_even (x / power_int 2 (ilog2 x - 52)) = n * 2 ^ k"
    by (simp only: round_half_even_of_int)
  then have "round_double x = of_int (n * 2 ^ k) * (1 / 2 ^ k)"
    using pos by (simp add: round_double_pos_unfold pk)
  then show ?thesis by (simp add: x_def)
qed

lemma abs_leD: "\<bar>x - y\<bar> \<le> e \<Longrightarrow> x \<le> y + e \<and> y \<le> x + (e::rat)"
  by linarith

lemma abs_leI: "x \<le> y + e \<Longrightarrow> y \<le> x + e \<Longrightarrow> \<bar>x - y\<bar> \<le> (e::rat)"
  by linarith

lemma round_double_abs:
  assumes "0 < x" "x \<le> B"
  shows "\<bar>round_double x - x\<bar> \<le> B / 2 ^ 53"
proof -
  have "x / 2 ^ 53 \<le> B / 2 ^ 53" using assms(2) by (simp add: divide_right_mono)
  with round_double_err [OF assms(1)] show ?thesis by linarith
qed

lemma float_of_int_exact: "0 < n \<Longrightarrow> n < 2 ^ 53 \<Longrightarrow> float_of_int n = of_int n"
  by (simp add: float_of_int_def round_double_of_int)

lemma preview_scale_1:
  assumes "0 < w0" "w0 \<le> width" "width < 2 ^ 53"
  shows "preview_scale width w0 = 1"
proof -
  have "(1::rat) \<le> of_int width / of_int w0"
    using assms by (simp add: pos_le_divide_eq)
  then have "1 \<le> round_double (of_int width / of_int w0)"
    by (rule round_double_ge_1)
  then show ?thesis
    using assms by (simp add: preview_scale_def fdiv_def float_of_int_exact)
qed

lemma preview_dim_1:
  assumes "0 < d" "d < 2 ^ 53"
  shows "preview_dim d 1 = d"
  using assms
  by (simp add: preview_dim_def fmul_def float_of_int_exact round_double_of_int
      int_of_float_def)

lemma preview_scale_near:
  assumes "64 \<le> width" "width < w0" "w0 < 2 ^ 31"
  shows "\<bar>preview_scale width w0 - of_int width / of_int w0\<bar> \<le> 1 / 2 ^ 53"
    and "0 < preview_scale width w0" and "preview_scale width w0 \<le> 1"
proof -
  define a :: rat where "a = of_int width / of_int w0"
  have w0: "(0::rat) < of_int w0" using assms by simp
  have a1: "a < 1" using assms w0 by (simp add: a_def)
  have a0: "0 < a" using assms w0 by (simp add: a_def)
  have alo: "1 / 2 ^ 25 < a"
  proof -
    have "(of_int w0 :: rat) < of_int (2 ^ 31)" using assms(3) by (simp only: of_int_less_iff)
    then have "(of_int w0 :: rat) < 2 ^ 31" by simp
    moreover have "(64::rat) \<le> of_int width" using assms(1) by simp
    ultimately have "of_int w0 * (1 / 2 ^ 25) < (of_int width :: rat)" by simp
    then show ?thesis using w0 by (simp add: a_def pos_less_divide_eq mult.commute)
  qed
  have r: "\<bar>round_double a - a\<bar> \<le> 1 / 2 ^ 53"
    using round_double_abs [of a 1] a0 a1 by simp
  have s: "preview_scale width w0 = min 1 (round_double a)"
    using assms by (simp add: preview_scale_def fdiv_def float_of_int_exact a_def)
  define e :: rat where "e = 1 / 2 ^ 53"
  have e: "e < 1 / 2 ^ 25" by (simp add: e_def)
  from r have r': "round_double a \<le> a + e" "a \<le> round_double a + e"
    using abs_leD [of "round_double a" a e] by (simp_all add: e_def)
  have "\<bar>min 1 (round_double a) - a\<bar> \<le> e"
  proof (cases "1 \<le> round_double a")
    case True
    then have "min 1 (round_double a) = 1" by simp
    moreover have "\<bar>1 - a\<bar> \<le> e" using True r' a1 by linarith
    ultimately show ?thesis by simp
  next
    case False
    then have "min 1 (round_double a) = round_double a" by simp
    moreover have "\<bar>round_double a - a\<bar> \<le> e" using r' by linarith
    ultimately show ?thesis by simp
  qed
  then show "\<bar>preview_scale width w0 - of_int width / of_int w0\<bar> \<le> 1 / 2 ^ 53"
    unfolding s a_def [symmetric] e_def .
  have "0 < round_double a" using r' alo e by linarith
  then show "0 < preview_scale width w0"
    unfolding s by simp
  show "preview_scale width w0 \<le> 1"
    unfolding s by simp
qed

lemma fmul_near:
  assumes "0 < d" "d < 2 ^ 31" "0 < s" "s \<le> 1" "\<bar>s - a\<bar> \<le> 1 / 2 ^ 53"
  shows "\<bar>fmul (float_of_int d) s - of_int d * a\<bar> \<le> 1 / 2 ^ 21"
    and "fmul (float_of_int d) s \<le> of_int d + 1 / 2 ^ 22"
proof -
  define D :: rat where "D = of_int d"
  have D0: "0 < D" using assms by (simp add: D_def)
  have "(of_int d :: rat) < of_int (2 ^ 31)" using assms(2) by (simp only: of_int_less_iff)
  then have D1: "D < 2 ^ 31" by (simp add: D_def)
  have f: "fmul (float_of_int d) s = round_double (D * s)"
    using assms by (simp add: fmul_def float_of_int_exact D_def)
  have p0: "0 < D * s" using D0 assms(3) by simp
  have "D * s \<le> D * 1" using D0 assms(4) by (intro mult_left_mono) simp_all
  then have p1: "D * s \<le> D" by simp
  then have p2: "D * s \<le> 2 ^ 31" using D1 by linarith
  have r: "\<bar>round_double (D * s) - D * s\<bar> \<le> 1 / 2 ^ 22"
    using round_double_abs [OF p0 p2] by simp
  have "\<bar>D * s - D * a\<bar> = D * \<bar>s - a\<bar>"
    using D0 by (simp add: right_diff_distrib [symmetric] abs_mult)
  also have "\<dots> \<le> 2 ^ 31 * (1 / 2 ^ 53)"
    using D0 D1 assms(5) by (intro mult_mono) simp_all
  finally have q: "\<bar>D * s - D * a\<bar> \<le> 1 / 2 ^ 22" by simp
  define e :: rat where "e = 1 / 2 ^ 22"
  have e: "e + e = 1 / 2 ^ 21" by (simp add: e_def)
  from r have r': "round_double (D * s) \<le> D * s + e" "D * s \<le> round_double (D * s) + e"
    using abs_leD [of "round_double (D * s)" "D * s" e] by (simp_all add: e_def)
  from q have q': "D * s \<le> D * a + e" "D * a \<le> D * s + e"
    using abs_leD [of "D * s" "D * a" e] by (simp_all add: e_def)
  have "\<bar>round_double (D * s) - D * a\<bar> \<le> e + e"
    using r' q' by linarith
  then show "\<bar>fmul (float_of_int d) s - of_int d * a\<bar> \<le> 1 / 2 ^ 21"
    unfolding f D_def [symmetric] e .
  have "round_double (D * s) \<le> D + e" using r' p1 by linarith
  then show "fmul (float_of_int d) s \<le> of_int d + 1 / 2 ^ 22"
    unfolding f D_def [symmetric] e_def .
qed

subsection \<open>The preview\<close>

lemma round_double_pos: "0 < x \<Longrightarrow> 0 < round_double x"
proof -
  assume x: "0 < x"
  have "x / 2 ^ 53 < x" using x by simp
  then show ?thesis using round_double_err [OF x] by linarith
qed

lemma preview_dim_width:
  assumes "64 \<le> width" "width < w0" "w0 < 2 ^ 31"
  shows "width - 1 \<le> preview_dim w0 (preview_scale width w0)"
    and "preview_dim w0 (preview_scale width w0) \<le> width"
proof -
  define s where "s = preview_scale width w0"
  define y where "y = fmul (float_of_int w0) s"
  have w0: "0 < w0" using assms by simp
  have a: "of_int w0 * (of_int width / of_int w0) = (of_int width :: rat)"
    using w0 by simp
  have n: "\<bar>y - of_int width\<bar> \<le> 1 / 2 ^ 21"
    using fmul_near(1) [OF w0 assms(3) preview_scale_near(2,3,1) [OF assms]]
    by (simp only: a y_def s_def)
  define e :: rat where "e = 1 / 2 ^ 21"
  have e: "e < 1" by (simp add: e_def)
  from n have n': "y \<le> of_int width + e" "of_int width \<le> y + e"
    using abs_leD [of y "of_int width" e] by (simp_all add: e_def)
  have w64: "(64::rat) \<le> of_int width" using assms(1) by simp
  then have y0: "0 \<le> y" using n' e by linarith
  have "of_int width - 1 \<le> y" using n' e by linarith
  then have lo: "of_int (width - 1) \<le> y" by simp
  have "y < of_int width + 1" using n' e by linarith
  then have hi: "y < of_int (width + 1)" by simp
  have f1: "width - 1 \<le> \<lfloor>y\<rfloor>" using lo by (simp only: le_floor_iff)
  have f2: "\<lfloor>y\<rfloor> < width + 1" using hi by (simp only: floor_less_iff)
  have d: "preview_dim w0 s = max 1 \<lfloor>y\<rfloor>"
    using y0 by (simp add: preview_dim_def int_of_float_def y_def)
  show "width - 1 \<le> preview_dim w0 (preview_scale width w0)"
    unfolding s_def [symmetric] d using f1 by simp
  show "preview_dim w0 (preview_scale width w0) \<le> width"
    unfolding s_def [symmetric] d using f2 assms(1) by simp
qed

lemma preview_dim_height:
  assumes "64 \<le> width" "width < w0" "w0 < 2 ^ 31" "0 < h0" "h0 < 2 ^ 31"
  shows "of_int h0 * (of_int width / of_int w0) - 2 < (of_int (preview_dim h0 (preview_scale width w0)) :: rat)"
    and "(of_int (preview_dim h0 (preview_scale width w0)) :: rat) < of_int h0 * (of_int width / of_int w0) + 1"
    and "1 \<le> preview_dim h0 (preview_scale width w0)"
    and "preview_dim h0 (preview_scale width w0) \<le> h0"
proof -
  define s where "s = preview_scale width w0"
  define y where "y = fmul (float_of_int h0) s"
  define x :: rat where "x = of_int h0 * (of_int width / of_int w0)"
  have s: "0 < s" "s \<le> 1" "\<bar>s - of_int width / of_int w0\<bar> \<le> 1 / 2 ^ 53"
    using preview_scale_near [OF assms(1-3)] by (simp_all add: s_def)
  have x0: "0 < x" using assms by (simp add: x_def)
  have n: "\<bar>y - x\<bar> \<le> 1 / 2 ^ 21"
    using fmul_near(1) [OF assms(4,5) s] by (simp only: y_def x_def)
  have u: "y \<le> of_int h0 + 1 / 2 ^ 22"
    using fmul_near(2) [OF assms(4,5) s] by (simp only: y_def)
  have "(of_int h0 :: rat) < of_int (2 ^ 53)" using assms(5) by (simp only: of_int_less_iff) simp
  then have fh: "float_of_int h0 = of_int h0"
    using assms(4,5) by (simp add: float_of_int_exact)
  have y0: "0 < y"
    unfolding y_def fmul_def fh using assms(4) s(1) by (intro round_double_pos) simp
  define e :: rat where "e = 1 / 2 ^ 21"
  define e' :: rat where "e' = 1 / 2 ^ 22"
  have e: "e < 1" "e' < 1" by (simp_all add: e_def e'_def)
  from n have n': "y \<le> x + e" "x \<le> y + e"
    using abs_leD [of y x e] by (simp_all add: e_def)
  from u have u': "y \<le> of_int h0 + e'" by (simp add: e'_def)
  have fl: "of_int \<lfloor>y\<rfloor> \<le> y" "y < of_int \<lfloor>y\<rfloor> + 1" by linarith+
  have d: "preview_dim h0 s = max 1 \<lfloor>y\<rfloor>"
    using y0 by (simp add: preview_dim_def int_of_float_def y_def)
  have m: "(of_int (max 1 \<lfloor>y\<rfloor>) :: rat) = max 1 (of_int \<lfloor>y\<rfloor>)"
    by (simp add: max_def)
  have "x - 2 < max 1 (of_int \<lfloor>y\<rfloor>)" using n' e fl by linarith
  then show "of_int h0 * (of_int width / of_int w0) - 2 < (of_int (preview_dim h0 (preview_scale width w0)) :: rat)"
    unfolding s_def [symmetric] d x_def [symmetric] m .
  have "max 1 (of_int \<lfloor>y\<rfloor>) < x + 1" using n' e fl x0 by linarith
  then show "(of_int (preview_dim h0 (preview_scale width w0)) :: rat) < of_int h0 * (of_int width / of_int w0) + 1"
    unfolding s_def [symmetric] d x_def [symmetric] m .
  show "1 \<le> preview_dim h0 (preview_scale width w0)"
    unfolding s_def [symmetric] d by simp
  have "y < of_int h0 + 1" using u' e by linarith
  then have "y < of_int (h0 + 1)" by simp
  then have "\<lfloor>y\<rfloor> < h0 + 1" by (simp only: floor_less_iff)
  then show "preview_dim h0 (preview_scale width w0) \<le> h0"
    unfolding s_def [symmetric] d using assms(4) by simp
qed


lemma preview_dims:
  assumes "64 \<le> width" "width \<le> 2000" "0 < w0" "w0 < 2 ^ 31" "0 < h0" "h0 < 2 ^ 31"
  defines "nw \<equiv> preview_dim w0 (preview_scale width w0)"
    and "nh \<equiv> preview_dim h0 (preview_scale width w0)"
  shows "1 \<le> nw \<and> nw \<le> w0 \<and> nw \<le> width \<and> 1 \<le> nh \<and> nh \<le> h0
     \<and> (w0 \<le> width \<longrightarrow> nw = w0 \<and> nh = h0)
     \<and> (width < w0 \<longrightarrow> width - 1 \<le> nw
          \<and> of_int h0 * (of_int width / of_int w0) - 2 < (of_int nh :: rat)
          \<and> (of_int nh :: rat) < of_int h0 * (of_int width / of_int w0) + 1)"
proof (cases "w0 \<le> width")
  case True
  have b: "width < 2 ^ 53" "w0 < 2 ^ 53" "h0 < 2 ^ 53" using assms(2,4,6) by simp_all
  have s: "preview_scale width w0 = 1"
    using assms(3) True b(1) by (rule preview_scale_1)
  have "nw = w0" "nh = h0"
    unfolding nw_def nh_def s using assms(3,5) b by (simp_all add: preview_dim_1)
  then show ?thesis using True assms(3,5) by simp
next
  case False
  then have lt: "width < w0" by simp
  note w = preview_dim_width [OF assms(1) lt assms(4)]
  note h = preview_dim_height [OF assms(1) lt assms(4,5,6)]
  show ?thesis
    unfolding nw_def nh_def using w h lt assms(1) by simp
qed

lemma render_preview_png_ok:
  assumes "render_preview_png os path mode page width dpi thr tr = (Inr b, tr')"
  shows "64 \<le> width \<and> width \<le> 2000 \<and>
     (\<exists>im im2. apply_mode os im mode thr = Inr im2 \<and> 0 < img_width im2 \<and> 0 < img_height im2 \<and>
        b = PngResized im2
              (preview_dim (int (img_width im2)) (preview_scale width (int (img_width im2))))
              (preview_dim (int (img_height im2)) (preview_scale width (int (img_width im2)))))"
  using assms
  by (auto simp: render_preview_png_def Let_def split: if_splits prod.splits sum.splits)

text \<open>
  Claim C1, amended. A requested width below 64 or above 2000 is refused with
  \<open>PrinterPalError\<close> and nothing else happens. A request that succeeds has a width from
  64 to 2000, and returns the PNG of the filtered image resized to \<open>nw\<close> by \<open>nh\<close>
  where, for an image whose sides are below \<open>2 ^ 31\<close> (Pillow's sizes are C ints): the
  preview is never larger than the image nor wider than requested; an image no wider than
  the request keeps its size; a wider image gets the requested width or one pixel less
  (float rounding), and a height within two pixels of the height scaled by
  \<open>width / w0\<close>, at least 1.
\<close>

theorem render_preview_png_width:
  "(width < 64 \<or> 2000 < width \<longrightarrow>
      render_preview_png os path mode page width dpi thr tr =
        (Inl (PrinterPalError ''width must be between 64 and 2000''), tr))
   \<and> (\<forall>b tr'. render_preview_png os path mode page width dpi thr tr = (Inr b, tr') \<longrightarrow>
        64 \<le> width \<and> width \<le> 2000 \<and>
        (\<exists>im im2 nw nh. apply_mode os im mode thr = Inr im2 \<and> b = PngResized im2 nw nh \<and>
           (int (img_width im2) < 2 ^ 31 \<and> int (img_height im2) < 2 ^ 31 \<longrightarrow>
              1 \<le> nw \<and> nw \<le> int (img_width im2) \<and> nw \<le> width
              \<and> 1 \<le> nh \<and> nh \<le> int (img_height im2)
              \<and> (int (img_width im2) \<le> width \<longrightarrow>
                    nw = int (img_width im2) \<and> nh = int (img_height im2))
              \<and> (width < int (img_width im2) \<longrightarrow> width - 1 \<le> nw
                   \<and> of_int (int (img_height im2)) * (of_int width / of_int (int (img_width im2))) - 2
                       < (of_int nh :: rat)
                   \<and> (of_int nh :: rat)
                       < of_int (int (img_height im2)) * (of_int width / of_int (int (img_width im2))) + 1))))"
proof (intro conjI allI impI)
  assume "width < 64 \<or> 2000 < width"
  then show "render_preview_png os path mode page width dpi thr tr =
        (Inl (PrinterPalError ''width must be between 64 and 2000''), tr)"
    by (auto simp: render_preview_png_def)
next
  fix b tr'
  assume a: "render_preview_png os path mode page width dpi thr tr = (Inr b, tr')"
  from render_preview_png_ok [OF a] show "64 \<le> width" "width \<le> 2000" by simp_all
  from render_preview_png_ok [OF a] obtain im im2 where
    w: "64 \<le> width" "width \<le> 2000" and m: "apply_mode os im mode thr = Inr im2" and
    p: "0 < img_width im2" "0 < img_height im2" and
    b: "b = PngResized im2
              (preview_dim (int (img_width im2)) (preview_scale width (int (img_width im2))))
              (preview_dim (int (img_height im2)) (preview_scale width (int (img_width im2))))"
    by blast
  let ?w0 = "int (img_width im2)" and ?h0 = "int (img_height im2)"
  let ?nw = "preview_dim ?w0 (preview_scale width ?w0)"
  let ?nh = "preview_dim ?h0 (preview_scale width ?w0)"
  have p': "0 < ?w0" "0 < ?h0" using p by simp_all
  have k: "?w0 < 2 ^ 31 \<and> ?h0 < 2 ^ 31 \<longrightarrow>
              1 \<le> ?nw \<and> ?nw \<le> ?w0 \<and> ?nw \<le> width \<and> 1 \<le> ?nh \<and> ?nh \<le> ?h0
              \<and> (?w0 \<le> width \<longrightarrow> ?nw = ?w0 \<and> ?nh = ?h0)
              \<and> (width < ?w0 \<longrightarrow> width - 1 \<le> ?nw
                   \<and> of_int ?h0 * (of_int width / of_int ?w0) - 2 < (of_int ?nh :: rat)
                   \<and> (of_int ?nh :: rat) < of_int ?h0 * (of_int width / of_int ?w0) + 1)"
  proof
    assume s: "?w0 < 2 ^ 31 \<and> ?h0 < 2 ^ 31"
    from preview_dims [OF w p'(1) conjunct1 [OF s] p'(2) conjunct2 [OF s]]
    show "1 \<le> ?nw \<and> ?nw \<le> ?w0 \<and> ?nw \<le> width \<and> 1 \<le> ?nh \<and> ?nh \<le> ?h0
              \<and> (?w0 \<le> width \<longrightarrow> ?nw = ?w0 \<and> ?nh = ?h0)
              \<and> (width < ?w0 \<longrightarrow> width - 1 \<le> ?nw
                   \<and> of_int ?h0 * (of_int width / of_int ?w0) - 2 < (of_int ?nh :: rat)
                   \<and> (of_int ?nh :: rat) < of_int ?h0 * (of_int width / of_int ?w0) + 1)" .
  qed
  show "\<exists>im im2 nw nh. apply_mode os im mode thr = Inr im2 \<and> b = PngResized im2 nw nh \<and>
           (int (img_width im2) < 2 ^ 31 \<and> int (img_height im2) < 2 ^ 31 \<longrightarrow>
              1 \<le> nw \<and> nw \<le> int (img_width im2) \<and> nw \<le> width
              \<and> 1 \<le> nh \<and> nh \<le> int (img_height im2)
              \<and> (int (img_width im2) \<le> width \<longrightarrow>
                    nw = int (img_width im2) \<and> nh = int (img_height im2))
              \<and> (width < int (img_width im2) \<longrightarrow> width - 1 \<le> nw
                   \<and> of_int (int (img_height im2)) * (of_int width / of_int (int (img_width im2))) - 2
                       < (of_int nh :: rat)
                   \<and> (of_int nh :: rat)
                       < of_int (int (img_height im2)) * (of_int width / of_int (int (img_width im2))) + 1))"
    using m b k by (intro exI [of _ im] exI [of _ im2] exI [of _ ?nw] exI [of _ ?nh]) blast
qed

lemma img_size_replicate:
  "0 < n \<Longrightarrow> img_width (replicate n r) = length r" "img_height (replicate n r) = n"
  by (cases n; simp add: img_width_def img_height_def)+

lemma preview_dim_1000_64: "preview_dim 1000 (preview_scale 64 1000) = 64"
  by code_simp

lemma preview_dim_500_64: "preview_dim 500 (preview_scale 64 1000) = 32"
  by code_simp

lemma ext_demo_png: "lower (splitext_ext ''/u/a.png'') = ''.png''"
  by code_simp

lemma lower_raw: "lower ''raw'' = ''raw''"
  by code_simp

lemma render_demo_wide_64:
  "render_preview_png demo_wide ''/u/a.png'' ''raw'' 1 64 150 180 [] =
     (Inr (PngResized (replicate 500 (replicate 1000 (9, 9, 9))) 64 32), [])"
  by (simp add: render_preview_png_def demo_wide_def ext_demo_png lower_raw
      SUPPORTED_IMAGE_EXTS_def open_image_def apply_mode_def Let_def img_size_replicate
      preview_dim_1000_64 preview_dim_500_64)

text \<open>
  Claim C1, as stated, fails at width 5000: on a source 1000 pixels wide the request is
  refused with an error; no PNG is produced, and the width is not clamped.
\<close>

theorem render_preview_png_rejects_5000:
  "render_preview_png demo_wide ''/u/a.png'' ''raw'' 1 5000 150 180 [] =
     (Inl (PrinterPalError ''width must be between 64 and 2000''), [])"
  by (simp add: render_preview_png_def)

theorem render_preview_png_width_witness:
  "((5000::int) < 64 \<or> (2000::int) < 5000)
   \<and> fst (render_preview_png demo_wide ''/u/a.png'' ''raw'' 1 5000 150 180 [])
       = Inl (PrinterPalError ''width must be between 64 and 2000'')
   \<and> render_preview_png demo_wide ''/u/a.png'' ''raw'' 1 64 150 180 [] =
       (Inr (PngResized (replicate 500 (replicate 1000 (9, 9, 9))) 64 32), [])
   \<and> int (img_width (replicate 500 (replicate 1000 ((9, 9, 9) :: rgb)))) < 2 ^ 31
   \<and> int (img_height (replicate 500 (replicate 1000 ((9, 9, 9) :: rgb)))) < 2 ^ 31
   \<and> (64::int) < int (img_width (replicate 500 (replicate 1000 ((9, 9, 9) :: rgb))))
   \<and> (64::int) - 1 \<le> 64 \<and> (64::int) \<le> 64 \<and> (32::int) \<le> 500"
  using render_preview_png_width [of 5000 demo_wide "''/u/a.png''" "''raw''" 1 150 180 "[]"]
    render_preview_png_width [of 64 demo_wide "''/u/a.png''" "''raw''" 1 150 180 "[]"]
    render_demo_wide_64
  by (simp add: img_size_replicate)

subsection \<open>Validating the configuration\<close>

lemma merge_lookup:
  "fmlookup (merge dst src) k =
     (case fmlookup src k of
        None \<Rightarrow> fmlookup dst k
      | Some v \<Rightarrow> Some (case fmlookup dst k of None \<Rightarrow> v | Some d \<Rightarrow> merge_value d v))"
  by (auto simp: merge_def fmlookup_dom_iff split: option.splits)

lemma merge_value_JObj: "merge_value (JObj dst) (JObj src) = JObj (merge dst src)"
proof -
  have "(case fmlookup (fmmap merge_value dst) k of None \<Rightarrow> v' | Some into \<Rightarrow> into v')
      = (case fmlookup dst k of None \<Rightarrow> v' | Some d \<Rightarrow> merge_value d v')" for k v'
    by (cases "fmlookup dst k") simp_all
  then show ?thesis by (simp add: merge_def)
qed

lemma fmupd_same: "fmlookup m k = Some v \<Longrightarrow> fmupd k v m = m"
  by (rule fmap_ext) auto

lemma as_int_range: "as_int v lo hi n = Inr iv \<Longrightarrow> lo \<le> iv \<and> iv \<le> hi"
  by (auto simp: as_int_def split: option.splits json.splits sum.splits if_splits)

lemma as_int_JInt: "lo \<le> iv \<Longrightarrow> iv \<le> hi \<Longrightarrow> as_int (Some (JInt iv)) lo hi n = Inr iv"
  by (simp add: as_int_def)

lemma section_of_Inr: "section_of c sec = Inr d \<longleftrightarrow> fmlookup c sec = Some (JObj d)"
  by (auto simp: section_of_def split: option.splits json.splits)

lemma set_int_Inr:
  assumes "set_int sec key lo hi c = Inr c'"
  shows "\<exists>iv. lo \<le> iv \<and> iv \<le> hi \<and> field c' sec key = Some (JInt iv)"
    and "\<And>s k. (s, k) \<noteq> (sec, key) \<Longrightarrow> field c' s k = field c s k"
  using assms
  by (auto simp: set_int_def field_def section_of_Inr split: sum.splits dest: as_int_range)

lemma set_int_accepts:
  assumes "field c sec key = Some (JInt iv)" "lo \<le> iv" "iv \<le> hi"
  shows "set_int sec key lo hi c = Inr c"
proof -
  from assms(1) obtain d where d: "fmlookup c sec = Some (JObj d)" "fmlookup d key = Some (JInt iv)"
    by (auto simp: field_def split: option.splits json.splits)
  then have "section_of c sec = Inr d" by (simp add: section_of_Inr)
  then show ?thesis
    using d assms(2,3) by (simp add: set_int_def as_int_JInt fmupd_same)
qed

lemma check_secret_key_Inr:
  "check_secret_key c = Inr c' \<longleftrightarrow>
     c' = c \<and> (\<exists>s. field c ''app'' ''secret_key'' = Some (JStr s) \<and> 16 \<le> length s)"
  by (auto simp: check_secret_key_def field_def section_of_def
      split: sum.splits option.splits json.splits if_splits)

lemma check_default_mode_Inr:
  "check_default_mode c = Inr c' \<longleftrightarrow>
     c' = c \<and> (\<exists>m. field c ''printing'' ''default_mode'' = Some (JStr m) \<and> m \<in> set MODES)"
  by (auto simp: check_default_mode_def field_def section_of_def
      split: sum.splits option.splits json.splits if_splits)

lemma check_bool_Inr:
  "check_bool sec key c = Inr c' \<longleftrightarrow> c' = c \<and> (\<exists>b. field c sec key = Some (JBool b))"
  by (auto simp: check_bool_def field_def section_of_def
      split: sum.splits option.splits json.splits if_splits)

lemma check_str_Inr:
  "check_str sec key c = Inr c' \<longleftrightarrow> c' = c \<and> (\<exists>s. field c sec key = Some (JStr s))"
  by (auto simp: check_str_def field_def section_of_def
      split: sum.splits option.splits json.splits if_splits)

lemma and_then_Inr: "and_then m f = Inr y \<longleftrightarrow> (\<exists>x. m = Inr x \<and> f x = Inr y)"
  by (cases m) (simp_all add: and_then_def)

lemma set_int_section:
  "set_int sec key lo hi c = Inr c' \<Longrightarrow> \<exists>d. fmlookup c sec = Some (JObj d)"
  by (auto simp: set_int_def section_of_Inr split: sum.splits)

lemma set_int_other_section:
  "set_int sec key lo hi c = Inr c' \<Longrightarrow> s \<noteq> sec \<Longrightarrow> fmlookup c' s = fmlookup c s"
  by (auto simp: set_int_def split: sum.splits)

lemma merged_field_present:
  assumes "fmlookup D sec = Some (JObj dsec)" "fmlookup dsec key \<noteq> None"
    "fmlookup (merge D x) sec = Some (JObj m)"
  shows "field (merge D x) sec key \<noteq> None"
proof (cases "fmlookup x sec")
  case None
  with assms show ?thesis by (simp add: field_def merge_lookup)
next
  case (Some val)
  with assms(1,3) have mv: "merge_value (JObj dsec) val = JObj m" by (simp add: merge_lookup)
  then obtain xs where xs: "val = JObj xs"
    by (cases val) auto
  with mv have "m = merge dsec xs"
    by (simp add: merge_value_JObj del: merge_value.simps)
  with xs assms(2,3) show ?thesis
    by (auto simp: field_def merge_lookup split: option.splits)
qed

lemma lookup_default_app: "fmlookup (default_config tok) ''app'' = Some (JObj (fmap_of_list [
        (''host'', JStr ''0.0.0.0''),
        (''port'', JInt 80),
        (''secret_key'', JStr tok),
        (''max_upload_mb'', JInt 25)]))"
  by (simp add: default_config_def)

lemma lookup_default_printing: "fmlookup (default_config tok) ''printing'' = Some (JObj (fmap_of_list [
        (''default_printer'', JStr ''''),
        (''preview_dpi'', JInt 150),
        (''print_dpi'', JInt 200),
        (''max_pdf_pages_process'', JInt 30),
        (''default_copies'', JInt 1),
        (''default_mode'', JStr ''grayscale''),
        (''bw_threshold'', JInt 180)]))"
  by (simp add: default_config_def)

lemma validate_config_valid:
  assumes "validate_config tok x = Inr v"
  shows "valid_config v"
proof -
  define c0 where "c0 = merge (default_config tok) x"
  from assms obtain c1 c2 c3 c4 c5 c6 where
    s1: "set_int ''app'' ''port'' 1 65535 c0 = Inr c1" and
    s2: "set_int ''app'' ''max_upload_mb'' 1 500 c1 = Inr c2" and
    k: "\<exists>s. field c2 ''app'' ''secret_key'' = Some (JStr s) \<and> 16 \<le> length s" and
    s3: "set_int ''printing'' ''preview_dpi'' 72 600 c2 = Inr c3" and
    s4: "set_int ''printing'' ''print_dpi'' 72 1200 c3 = Inr c4" and
    s5: "set_int ''printing'' ''max_pdf_pages_process'' 1 500 c4 = Inr c5" and
    s6: "set_int ''printing'' ''default_copies'' 1 99 c5 = Inr c6" and
    s7: "set_int ''printing'' ''bw_threshold'' 1 254 c6 = Inr v" and
    m: "\<exists>m. field v ''printing'' ''default_mode'' = Some (JStr m) \<and> m \<in> set MODES" and
    b: "bool_field v ''ui'' ''default_dark_mode''" "bool_field v ''ui'' ''default_eink_mode''"
       "bool_field v ''airprint'' ''auto_enable''" "bool_field v ''security'' ''require_token''" and
    t: "str_field v ''security'' ''token''"
    unfolding validate_config_def validate_steps_def c0_def [symmetric]
    by (auto simp: and_then_Inr check_secret_key_Inr check_default_mode_Inr check_bool_Inr
        check_str_Inr bool_field_def str_field_def)
  note e1 = set_int_Inr(2) [OF s1] and e2 = set_int_Inr(2) [OF s2] and e3 = set_int_Inr(2) [OF s3]
    and e4 = set_int_Inr(2) [OF s4] and e5 = set_int_Inr(2) [OF s5] and e6 = set_int_Inr(2) [OF s6]
    and e7 = set_int_Inr(2) [OF s7]
  have host: "field c0 ''app'' ''host'' \<noteq> None"
    using set_int_section [OF s1]
      merged_field_present [OF lookup_default_app [of tok], where key = "''host''" and x = x]
    by (auto simp: c0_def)
  have "\<exists>d. fmlookup c0 ''printing'' = Some (JObj d)"
    using set_int_section [OF s3] set_int_other_section [OF s1, of "''printing''"]
      set_int_other_section [OF s2, of "''printing''"]
    by simp
  then have printer: "field c0 ''printing'' ''default_printer'' \<noteq> None"
    using merged_field_present [OF lookup_default_printing [of tok],
        where key = "''default_printer''" and x = x]
    by (auto simp: c0_def)
  have f1: "int_field v ''app'' ''port'' 1 65535"
    using set_int_Inr(1) [OF s1] by (auto simp: int_field_def e2 e3 e4 e5 e6 e7)
  have f2: "int_field v ''app'' ''max_upload_mb'' 1 500"
    using set_int_Inr(1) [OF s2] by (auto simp: int_field_def e3 e4 e5 e6 e7)
  have f3: "int_field v ''printing'' ''preview_dpi'' 72 600"
    using set_int_Inr(1) [OF s3] by (auto simp: int_field_def e4 e5 e6 e7)
  have f4: "int_field v ''printing'' ''print_dpi'' 72 1200"
    using set_int_Inr(1) [OF s4] by (auto simp: int_field_def e5 e6 e7)
  have f5: "int_field v ''printing'' ''max_pdf_pages_process'' 1 500"
    using set_int_Inr(1) [OF s5] by (auto simp: int_field_def e6 e7)
  have f6: "int_field v ''printing'' ''default_copies'' 1 99"
    using set_int_Inr(1) [OF s6] by (auto simp: int_field_def e7)
  have f7: "int_field v ''printing'' ''bw_threshold'' 1 254"
    using set_int_Inr(1) [OF s7] by (auto simp: int_field_def)
  have g1: "field v ''app'' ''host'' \<noteq> None"
    using host by (simp add: e1 e2 e3 e4 e5 e6 e7)
  have g2: "field v ''printing'' ''default_printer'' \<noteq> None"
    using printer by (simp add: e1 e2 e3 e4 e5 e6 e7)
  have g3: "\<exists>s. field v ''app'' ''secret_key'' = Some (JStr s) \<and> 16 \<le> length s"
    using k by (simp add: e3 e4 e5 e6 e7)
  show ?thesis
    unfolding valid_config_def using f1 f2 f3 f4 f5 f6 f7 g1 g2 g3 m b t by blast
qed

lemma merge_scalars:
  assumes "\<And>key d. fmlookup dsec key = Some d \<Longrightarrow>
     fmlookup sec key \<noteq> None \<and> (\<forall>val. merge_value d val = val)"
  shows "merge dsec sec = sec"
proof (rule fmap_ext)
  fix k
  show "fmlookup (merge dsec sec) k = fmlookup sec k"
  proof (cases "fmlookup dsec k")
    case None
    then show ?thesis by (simp add: merge_lookup split: option.splits)
  next
    case (Some d)
    from assms [OF Some] show ?thesis
      using Some by (auto simp: merge_lookup split: option.splits)
  qed
qed

lemma merge_sections:
  assumes "\<And>k d. fmlookup D k = Some d \<Longrightarrow>
     \<exists>dsec sec. d = JObj dsec \<and> fmlookup v k = Some (JObj sec) \<and> merge dsec sec = sec"
  shows "merge D v = v"
proof (rule fmap_ext)
  fix k
  show "fmlookup (merge D v) k = fmlookup v k"
  proof (cases "fmlookup D k")
    case None
    then show ?thesis by (simp add: merge_lookup split: option.splits)
  next
    case (Some d)
    from assms [OF Some] obtain dsec sec where
      "d = JObj dsec" "fmlookup v k = Some (JObj sec)" "merge dsec sec = sec"
      by blast
    with Some show ?thesis
      by (simp add: merge_lookup merge_value_JObj del: merge_value.simps)
  qed
qed

lemma fmap_of_list_SomeD: "fmlookup (fmap_of_list xs) k = Some d \<Longrightarrow> (k, d) \<in> set xs"
  by (simp add: fmlookup_of_list map_of_SomeD)

lemma merge_scalar_list:
  assumes "\<And>key d. (key, d) \<in> set xs \<Longrightarrow>
     fmlookup sec key \<noteq> None \<and> (\<forall>val. merge_value d val = val)"
  shows "merge (fmap_of_list xs) sec = sec"
proof (rule merge_scalars)
  fix key d
  assume "fmlookup (fmap_of_list xs) key = Some d"
  then have "(key, d) \<in> set xs" by (rule fmap_of_list_SomeD)
  then show "fmlookup sec key \<noteq> None \<and> (\<forall>val. merge_value d val = val)" by (rule assms)
qed

lemma field_section:
  "field c sec key \<noteq> None \<Longrightarrow> \<exists>d. fmlookup c sec = Some (JObj d)"
  by (auto simp: field_def split: option.splits json.splits)

lemma field_lookup: "fmlookup c sec = Some (JObj d) \<Longrightarrow> field c sec key = fmlookup d key"
  by (simp add: field_def)

lemma valid_config_merge:
  assumes "valid_config v"
  shows "merge (default_config tok) v = v"
proof (rule merge_sections)
  fix k d
  assume kd: "fmlookup (default_config tok) k = Some d"
  from assms have
    a: "field v ''app'' ''host'' \<noteq> None" "field v ''app'' ''port'' \<noteq> None"
       "field v ''app'' ''secret_key'' \<noteq> None" "field v ''app'' ''max_upload_mb'' \<noteq> None" and
    p: "field v ''printing'' ''default_printer'' \<noteq> None" "field v ''printing'' ''preview_dpi'' \<noteq> None"
       "field v ''printing'' ''print_dpi'' \<noteq> None"
       "field v ''printing'' ''max_pdf_pages_process'' \<noteq> None"
       "field v ''printing'' ''default_copies'' \<noteq> None"
       "field v ''printing'' ''default_mode'' \<noteq> None"
       "field v ''printing'' ''bw_threshold'' \<noteq> None" and
    r: "field v ''airprint'' ''auto_enable'' \<noteq> None" and
    u: "field v ''ui'' ''default_dark_mode'' \<noteq> None" "field v ''ui'' ''default_eink_mode'' \<noteq> None" and
    s: "field v ''security'' ''require_token'' \<noteq> None" "field v ''security'' ''token'' \<noteq> None"
    by (auto simp: valid_config_def int_field_def bool_field_def str_field_def)
  from kd [unfolded default_config_def, THEN fmap_of_list_SomeD]
  consider "k = ''app''" | "k = ''printing''" | "k = ''airprint''" | "k = ''ui''"
    | "k = ''security''"
    by auto
  then show "\<exists>dsec sec. d = JObj dsec \<and> fmlookup v k = Some (JObj sec) \<and> merge dsec sec = sec"
  proof cases
    case 1
    from field_section [OF a(1)] obtain sec where sec: "fmlookup v ''app'' = Some (JObj sec)" ..
    from kd 1 obtain dsec where d: "d = JObj dsec" "dsec = fmap_of_list [
        (''host'', JStr ''0.0.0.0''), (''port'', JInt 80), (''secret_key'', JStr tok),
        (''max_upload_mb'', JInt 25)]"
      by (simp add: default_config_def)
    have "merge dsec sec = sec"
      using a unfolding d(2) field_lookup [OF sec]
      by (intro merge_scalar_list) auto
    with 1 sec d(1) show ?thesis by simp
  next
    case 2
    from field_section [OF p(1)] obtain sec where sec: "fmlookup v ''printing'' = Some (JObj sec)" ..
    from kd 2 obtain dsec where d: "d = JObj dsec" "dsec = fmap_of_list [
        (''default_printer'', JStr ''''), (''preview_dpi'', JInt 150), (''print_dpi'', JInt 200),
        (''max_pdf_pages_process'', JInt 30), (''default_copies'', JInt 1),
        (''default_mode'', JStr ''grayscale''), (''bw_threshold'', JInt 180)]"
      by (simp add: default_config_def)
    have "merge dsec sec = sec"
      using p unfolding d(2) field_lookup [OF sec]
      by (intro merge_scalar_list) auto
    with 2 sec d(1) show ?thesis by simp
  next
    case 3
    from field_section [OF r] obtain sec where sec: "fmlookup v ''airprint'' = Some (JObj sec)" ..
    from kd 3 obtain dsec where d: "d = JObj dsec" "dsec = fmap_of_list [
        (''auto_enable'', JBool True)]"
      by (simp add: default_config_def)
    have "merge dsec sec = sec"
      using r unfolding d(2) field_lookup [OF sec]
      by (intro merge_scalar_list) auto
    with 3 sec d(1) show ?thesis by simp
  next
    case 4
    from field_section [OF u(1)] obtain sec where sec: "fmlookup v ''ui'' = Some (JObj sec)" ..
    from kd 4 obtain dsec where d: "d = JObj dsec" "dsec = fmap_of_list [
        (''default_dark_mode'', JBool False), (''default_eink_mode'', JBool False)]"
      by (simp add: default_config_def)
    have "merge dsec sec = sec"
      using u unfolding d(2) field_lookup [OF sec]
      by (intro merge_scalar_list) auto
    with 4 sec d(1) show ?thesis by simp
  next
    case 5
    from field_section [OF s(1)] obtain sec where sec: "fmlookup v ''security'' = Some (JObj sec)" ..
    from kd 5 obtain dsec where d: "d = JObj dsec" "dsec = fmap_of_list [
        (''require_token'', JBool False), (''token'', JStr '''')]"
      by (simp add: default_config_def)
    have "merge dsec sec = sec"
      using s unfolding d(2) field_lookup [OF sec]
      by (intro merge_scalar_list) auto
    with 5 sec d(1) show ?thesis by simp
  qed
qed

lemma valid_config_steps:
  assumes "valid_config v"
  shows "foldl and_then (Inr v) validate_steps = Inr v"
proof -
  have i: "int_field c sec key lo hi \<Longrightarrow> set_int sec key lo hi c = Inr c" for c sec key lo hi
    by (auto simp: int_field_def intro: set_int_accepts)
  have b: "bool_field c sec key \<Longrightarrow> check_bool sec key c = Inr c" for c sec key
    by (simp add: check_bool_Inr bool_field_def)
  have s: "str_field c sec key \<Longrightarrow> check_str sec key c = Inr c" for c sec key
    by (simp add: check_str_Inr str_field_def)
  from assms have
    "set_int ''app'' ''port'' 1 65535 v = Inr v"
    "set_int ''app'' ''max_upload_mb'' 1 500 v = Inr v"
    "check_secret_key v = Inr v"
    "set_int ''printing'' ''preview_dpi'' 72 600 v = Inr v"
    "set_int ''printing'' ''print_dpi'' 72 1200 v = Inr v"
    "set_int ''printing'' ''max_pdf_pages_process'' 1 500 v = Inr v"
    "set_int ''printing'' ''default_copies'' 1 99 v = Inr v"
    "set_int ''printing'' ''bw_threshold'' 1 254 v = Inr v"
    "check_default_mode v = Inr v"
    "check_bool ''ui'' ''default_dark_mode'' v = Inr v"
    "check_bool ''ui'' ''default_eink_mode'' v = Inr v"
    "check_bool ''airprint'' ''auto_enable'' v = Inr v"
    "check_bool ''security'' ''require_token'' v = Inr v"
    "check_str ''security'' ''token'' v = Inr v"
    by (simp_all add: valid_config_def i b s check_secret_key_Inr check_default_mode_Inr)
  then show ?thesis
    by (simp add: validate_steps_def and_then_def)
qed

lemma default_config_app:
  "fmlookup (default_config tok) ''app'' = Some (JObj (fmap_of_list (default_app tok)))"
  by (simp add: default_config_def default_app_def)

lemma default_config_other:
  "k \<noteq> ''app'' \<Longrightarrow> fmlookup (default_config tok) k = fmlookup (default_config tok') k"
  by (simp add: default_config_def)

lemma default_app_lookup:
  "fmlookup (fmap_of_list (default_app tok)) key =
     (if key = ''secret_key'' then Some (JStr tok)
      else fmlookup (fmap_of_list (default_app tok')) key)"
  by (simp add: default_app_def)

lemma default_app_scalar:
  "fmlookup (fmap_of_list (default_app tok)) key = Some d \<Longrightarrow> merge_value d val = val"
proof -
  assume "fmlookup (fmap_of_list (default_app tok)) key = Some d"
  then have "(key, d) \<in> set (default_app tok)" by (rule fmap_of_list_SomeD)
  then show ?thesis by (auto simp: default_app_def)
qed

lemma merge_default_app:
  assumes "fmlookup xa ''secret_key'' \<noteq> None"
  shows "merge (fmap_of_list (default_app tok)) xa = merge (fmap_of_list (default_app tok')) xa"
proof (rule fmap_ext)
  fix key
  show "fmlookup (merge (fmap_of_list (default_app tok)) xa) key
      = fmlookup (merge (fmap_of_list (default_app tok')) xa) key"
  proof (cases "fmlookup xa key")
    case None
    with assms have "key \<noteq> ''secret_key''" by auto
    with None show ?thesis
      by (simp add: merge_lookup default_app_lookup [of tok key tok'])
  next
    case (Some v)
    have "(case fmlookup (fmap_of_list (default_app t)) key of None \<Rightarrow> v
           | Some d \<Rightarrow> merge_value d v) = v" for t
      by (auto split: option.splits dest: default_app_scalar)
    with Some show ?thesis by (simp add: merge_lookup)
  qed
qed

lemma validate_config_own_secret_key:
  assumes "field x ''app'' ''secret_key'' \<noteq> None"
  shows "validate_config tok x = validate_config tok' x"
proof -
  from assms obtain xa where xa: "fmlookup x ''app'' = Some (JObj xa)"
    "fmlookup xa ''secret_key'' \<noteq> None"
    by (auto simp: field_def split: option.splits json.splits)
  have "merge (default_config tok) x = merge (default_config tok') x"
  proof (rule fmap_ext)
    fix k
    show "fmlookup (merge (default_config tok) x) k = fmlookup (merge (default_config tok') x) k"
    proof (cases "k = ''app''")
      case True
      then show ?thesis
        using xa merge_default_app [OF xa(2), of tok tok']
        by (simp add: merge_lookup default_config_app merge_value_JObj del: merge_value.simps)
    next
      case False
      have "fmlookup (default_config tok) k = fmlookup (default_config tok') k"
        using False by (rule default_config_other)
      then show ?thesis
        by (simp only: merge_lookup)
    qed
  qed
  then show ?thesis by (simp add: validate_config_def)
qed

lemma validate_demo: "validate_config demo_token demo_cfg = Inr demo_validated"
  by code_simp

lemma validate_demo_validated:
  "validate_config demo_token demo_validated = Inr demo_validated"
  by code_simp

lemma demo_validated_secret_key: "field demo_validated ''app'' ''secret_key'' \<noteq> None"
  by code_simp

subsection \<open>The JSON round trip\<close>

lemma fmran_fmmap_True:
  "(True |\<in>| fmran (fmmap P d)) \<longleftrightarrow> (\<exists>k v. fmlookup d k = Some v \<and> P v)"
  unfolding fmlookup_ran_iff fmlookup_map by auto

lemma fmrel_apply_fmmap:
  "fmrel (\<lambda>eq y. eq y) (fmmap f d) d' \<longleftrightarrow>
     fmdom d = fmdom d' \<and> (\<forall>k a b. fmlookup d k = Some a \<longrightarrow> fmlookup d' k = Some b \<longrightarrow> f a b)"
proof
  assume r: "fmrel (\<lambda>eq y. eq y) (fmmap f d) d'"
  then have "fmdom (fmmap f d) = fmdom d'" by (rule fmrel_fmdom_eq)
  moreover have "f a b" if "fmlookup d k = Some a" "fmlookup d' k = Some b" for k a b
    using r [unfolded fmrel_iff, rule_format, of k] that by simp
  ultimately show "fmdom d = fmdom d' \<and>
     (\<forall>k a b. fmlookup d k = Some a \<longrightarrow> fmlookup d' k = Some b \<longrightarrow> f a b)"
    by simp
next
  assume a: "fmdom d = fmdom d' \<and>
     (\<forall>k a b. fmlookup d k = Some a \<longrightarrow> fmlookup d' k = Some b \<longrightarrow> f a b)"
  show "fmrel (\<lambda>eq y. eq y) (fmmap f d) d'"
    unfolding fmrel_iff
  proof
    fix k
    show "rel_option (\<lambda>eq y. eq y) (fmlookup (fmmap f d) k) (fmlookup d' k)"
    proof (cases "fmlookup d k")
      case None
      then have "k |\<notin>| fmdom d" by (simp add: fmdom_notI)
      with a have "fmlookup d' k = None" by (simp add: fmdom_notD)
      with None show ?thesis by simp
    next
      case (Some x)
      then have "k |\<in>| fmdom d" by (simp add: fmdomI)
      with a obtain y where y: "fmlookup d' k = Some y" by (metis fmlookup_dom_iff)
      with a Some have "f x y" by blast
      with Some y show ?thesis by simp
    qed
  qed
qed

lemma foreign_nan_JObj:
  "foreign_nan (JObj d) \<longleftrightarrow> (\<exists>k v. fmlookup d k = Some v \<and> foreign_nan v)"
  unfolding foreign_nan.simps by (rule fmran_fmmap_True)

lemma holds_foreign_nan_iff:
  "holds_foreign_nan c \<longleftrightarrow> (\<exists>k v. fmlookup c k = Some v \<and> foreign_nan v)"
  unfolding holds_foreign_nan_def by (rule fmran_fmmap_True)

lemma item_eq_JObj:
  "item_eq (JObj d) (JObj d') \<longleftrightarrow>
     fmdom d = fmdom d' \<and>
     (\<forall>k a b. fmlookup d k = Some a \<longrightarrow> fmlookup d' k = Some b \<longrightarrow> item_eq a b)"
  unfolding item_eq.simps json.case by (rule fmrel_apply_fmmap)

lemma item_eq_loads_dumps: "item_eq (loads_dumps v) v \<longleftrightarrow> \<not> foreign_nan v"
proof (induction v)
  case (JFloat f)
  then show ?case by (cases f) (simp_all add: num_of_def)
next
  case (JList xs)
  have "list_all2 (\<lambda>eq y. eq y) (map item_eq (map loads_dumps xs)) xs
      \<longleftrightarrow> (\<forall>x\<in>set xs. item_eq (loads_dumps x) x)"
    by (simp add: list_all2_map1 list_all2_same)
  with JList show ?case by auto
next
  case (JObj d)
  have ih: "item_eq (loads_dumps v) v \<longleftrightarrow> \<not> foreign_nan v" if "fmlookup d k = Some v" for k v
    using that by (intro JObj.IH fmran'I)
  have "item_eq (loads_dumps (JObj d)) (JObj d)
      \<longleftrightarrow> (\<forall>k v. fmlookup d k = Some v \<longrightarrow> item_eq (loads_dumps v) v)"
    unfolding loads_dumps.simps item_eq_JObj by auto
  also have "\<dots> \<longleftrightarrow> (\<forall>k v. fmlookup d k = Some v \<longrightarrow> \<not> foreign_nan v)"
    using ih by blast
  also have "\<dots> \<longleftrightarrow> \<not> foreign_nan (JObj d)"
    unfolding foreign_nan_JObj by blast
  finally show ?case .
qed (simp_all add: num_of_def)

lemma loads_dumps_id: "\<not> foreign_nan v \<Longrightarrow> loads_dumps v = v"
proof (induction v)
  case (JFloat f)
  then show ?case by (cases f) simp_all
next
  case (JList xs)
  then have "map loads_dumps xs = map id xs"
    by (intro map_cong) auto
  then show ?case by simp
next
  case (JObj d)
  have "fmmap loads_dumps d = d"
  proof (rule fmap_ext)
    fix k
    show "fmlookup (fmmap loads_dumps d) k = fmlookup d k"
    proof (cases "fmlookup d k")
      case (Some v)
      then have "v \<in> fmran' d" by (rule fmran'I)
      moreover from Some JObj.prems have "\<not> foreign_nan v"
        unfolding foreign_nan_JObj by blast
      ultimately have "loads_dumps v = v" by (rule JObj.IH)
      with Some show ?thesis by simp
    qed simp
  qed
  then show ?case by simp
qed simp_all

lemma py_eq_roundtrip: "py_eq (json_roundtrip v) v \<longleftrightarrow> \<not> holds_foreign_nan v"
proof -
  have "py_eq (json_roundtrip v) v
      \<longleftrightarrow> (\<forall>k a. fmlookup v k = Some a \<longrightarrow> item_eq (loads_dumps a) a)"
    unfolding py_eq_def json_roundtrip_def fmrel_apply_fmmap by auto
  then show ?thesis
    unfolding holds_foreign_nan_iff item_eq_loads_dumps by blast
qed

lemma json_roundtrip_id: "\<not> holds_foreign_nan v \<Longrightarrow> json_roundtrip v = v"
proof -
  assume a: "\<not> holds_foreign_nan v"
  show ?thesis
    unfolding json_roundtrip_def
  proof (rule fmap_ext)
    fix k
    show "fmlookup (fmmap loads_dumps v) k = fmlookup v k"
      using a unfolding holds_foreign_nan_iff
      by (cases "fmlookup v k") (auto simp: loads_dumps_id)
  qed
qed

lemma field_roundtrip:
  "field (json_roundtrip v) sec key = map_option loads_dumps (field v sec key)"
  by (auto simp: field_def json_roundtrip_def split: option.splits json.splits)

lemma valid_config_roundtrip: "valid_config v \<Longrightarrow> valid_config (json_roundtrip v)"
  unfolding valid_config_def int_field_def bool_field_def str_field_def field_roundtrip
  by (elim conjE exE) (simp del: set_simps)

lemma foreign_nan_merge_value:
  "foreign_nan (merge_value d s) \<Longrightarrow> foreign_nan d \<or> foreign_nan s"
proof (induction d arbitrary: s)
  case dst: (JObj dst)
  show ?case
  proof (cases s)
    case (JObj src)
    with dst.prems obtain k v where
      kv: "fmlookup (merge dst src) k = Some v" "foreign_nan v"
      by (auto simp: merge_value_JObj foreign_nan_JObj simp del: merge_value.simps)
    show ?thesis
    proof (cases "fmlookup src k")
      case None
      with kv have "fmlookup dst k = Some v" by (simp add: merge_lookup)
      with kv(2) show ?thesis unfolding foreign_nan_JObj by blast
    next
      case (Some y)
      note y = this
      show ?thesis
      proof (cases "fmlookup dst k")
        case None
        with y kv have "foreign_nan y" by (simp add: merge_lookup)
        with y have "foreign_nan (JObj src)" unfolding foreign_nan_JObj by blast
        with JObj show ?thesis by simp
      next
        case (Some x)
        from Some have "x \<in> fmran' dst" by (rule fmran'I)
        moreover from Some y kv have "foreign_nan (merge_value x y)" by (simp add: merge_lookup)
        ultimately have "foreign_nan x \<or> foreign_nan y" by (rule dst.IH)
        with Some y have "foreign_nan (JObj dst) \<or> foreign_nan (JObj src)"
          unfolding foreign_nan_JObj by blast
        with JObj show ?thesis by simp
      qed
    qed
  qed (use dst.prems in simp_all)
qed simp_all

lemma holds_foreign_nan_merge:
  "holds_foreign_nan (merge D x) \<Longrightarrow> holds_foreign_nan D \<or> holds_foreign_nan x"
  using foreign_nan_merge_value [of "JObj D" "JObj x"]
  by (simp add: merge_value_JObj foreign_nan_JObj holds_foreign_nan_iff del: merge_value.simps
      foreign_nan.simps)

lemma foreign_nan_of_list:
  "foreign_nan (JObj (fmap_of_list xs)) \<Longrightarrow> \<exists>(k, v) \<in> set xs. foreign_nan v"
  unfolding foreign_nan_JObj by (blast dest: fmap_of_list_SomeD)

lemma default_config_no_nan: "\<not> holds_foreign_nan (default_config tok)"
proof
  assume "holds_foreign_nan (default_config tok)"
  then obtain k v where kv: "fmlookup (default_config tok) k = Some v" "foreign_nan v"
    unfolding holds_foreign_nan_iff by blast
  from kv(1) [unfolded default_config_def, THEN fmap_of_list_SomeD] kv(2)
  show False
    by (auto dest!: foreign_nan_of_list simp del: foreign_nan.simps(7) fmap_of_list_simps)
qed

lemma set_int_no_nan:
  assumes "set_int sec key lo hi c = Inr c'" "holds_foreign_nan c'"
  shows "holds_foreign_nan c"
proof -
  from assms(1) obtain d iv where
    d: "fmlookup c sec = Some (JObj d)" and c': "c' = fmupd sec (JObj (fmupd key (JInt iv) d)) c"
    by (auto simp: set_int_def section_of_Inr split: sum.splits)
  from assms(2) obtain k v where kv: "fmlookup c' k = Some v" "foreign_nan v"
    unfolding holds_foreign_nan_iff by blast
  show ?thesis
  proof (cases "k = sec")
    case True
    with kv c' have "foreign_nan (JObj (fmupd key (JInt iv) d))" by simp
    then obtain k' v' where "fmlookup (fmupd key (JInt iv) d) k' = Some v'" "foreign_nan v'"
      unfolding foreign_nan_JObj by blast
    then have "fmlookup d k' = Some v'" by (cases "k' = key") auto
    with \<open>foreign_nan v'\<close> have "foreign_nan (JObj d)" unfolding foreign_nan_JObj by blast
    with d show ?thesis unfolding holds_foreign_nan_iff by blast
  next
    case False
    with kv c' have "fmlookup c k = Some v" by simp
    with kv(2) show ?thesis unfolding holds_foreign_nan_iff by blast
  qed
qed

lemma validate_config_no_nan:
  assumes "validate_config tok x = Inr v" "holds_foreign_nan v"
  shows "holds_foreign_nan x"
proof -
  define c0 where "c0 = merge (default_config tok) x"
  from assms(1) obtain c1 c2 c3 c4 c5 c6 where
    s1: "set_int ''app'' ''port'' 1 65535 c0 = Inr c1" and
    s2: "set_int ''app'' ''max_upload_mb'' 1 500 c1 = Inr c2" and
    s3: "set_int ''printing'' ''preview_dpi'' 72 600 c2 = Inr c3" and
    s4: "set_int ''printing'' ''print_dpi'' 72 1200 c3 = Inr c4" and
    s5: "set_int ''printing'' ''max_pdf_pages_process'' 1 500 c4 = Inr c5" and
    s6: "set_int ''printing'' ''default_copies'' 1 99 c5 = Inr c6" and
    s7: "set_int ''printing'' ''bw_threshold'' 1 254 c6 = Inr v"
    unfolding validate_config_def validate_steps_def c0_def [symmetric]
    by (auto simp: and_then_Inr check_secret_key_Inr check_default_mode_Inr check_bool_Inr
        check_str_Inr)
  from assms(2) have "holds_foreign_nan c0"
    by (intro set_int_no_nan [OF s1] set_int_no_nan [OF s2] set_int_no_nan [OF s3]
        set_int_no_nan [OF s4] set_int_no_nan [OF s5] set_int_no_nan [OF s6]
        set_int_no_nan [OF s7])
  then show ?thesis
    unfolding c0_def using holds_foreign_nan_merge default_config_no_nan by blast
qed

lemma validate_config_roundtrip_fixed:
  assumes "validate_config tok x = Inr v"
  shows "validate_config tok' (json_roundtrip v) = Inr (json_roundtrip v)"
proof -
  from assms have "valid_config v" by (rule validate_config_valid)
  then have "valid_config (json_roundtrip v)" by (rule valid_config_roundtrip)
  then show ?thesis
    by (simp add: validate_config_def valid_config_merge valid_config_steps)
qed

text \<open>
  Two calls on an input without \<open>app.secret_key\<close> draw two keys, and return two
  configs.
\<close>

lemma validate_config_two_keys:
  "validate_config demo_token fmempty = Inr (default_config demo_token)
   \<and> validate_config demo_token2 fmempty = Inr (default_config demo_token2)
   \<and> \<not> py_eq (default_config demo_token2) (default_config demo_token)"
  by code_simp

lemma demo_no_nan: "\<not> holds_foreign_nan demo_cfg \<and> \<not> holds_foreign_nan demo_validated"
  by code_simp

text \<open>
  Claim C8, amended. Let \<open>v\<close> be the config that \<open>validate_config\<close> returned for
  \<open>x\<close>. Written as JSON, read back and validated again, whatever secret key the second
  call draws for its defaults, validation succeeds and returns the object that was read.
  That object is \<open>==\<close> to \<open>v\<close> exactly when \<open>v\<close> holds no NaN other than the decoder's
  own; when \<open>x\<close> holds none, it is \<open>v\<close>. When \<open>x\<close> itself carries \<open>app.secret_key\<close>,
  the drawn key plays no part, and validating \<open>x\<close> again gives \<open>v\<close> as well.
\<close>

theorem validate_config_round_trip:
  "validate_config token x = Inr v \<Longrightarrow>
     validate_config token' (json_roundtrip v) = Inr (json_roundtrip v)
     \<and> (py_eq (json_roundtrip v) v \<longleftrightarrow> \<not> holds_foreign_nan v)
     \<and> (\<not> holds_foreign_nan x \<longrightarrow> validate_config token' (json_roundtrip v) = Inr v)
     \<and> (field x ''app'' ''secret_key'' \<noteq> None \<longrightarrow> validate_config token' x = Inr v)"
proof -
  assume a: "validate_config token x = Inr v"
  then have r: "validate_config token' (json_roundtrip v) = Inr (json_roundtrip v)"
    by (rule validate_config_roundtrip_fixed)
  have "validate_config token' (json_roundtrip v) = Inr v" if "\<not> holds_foreign_nan x"
  proof -
    from that validate_config_no_nan [OF a] have "\<not> holds_foreign_nan v" by blast
    then have "json_roundtrip v = v" by (rule json_roundtrip_id)
    with r show ?thesis by simp
  qed
  then have "\<not> holds_foreign_nan x \<longrightarrow> validate_config token' (json_roundtrip v) = Inr v"
    by blast
  moreover have "field x ''app'' ''secret_key'' \<noteq> None \<longrightarrow> validate_config token' x = Inr v"
    using a validate_config_own_secret_key [of x token' token] by simp
  ultimately show ?thesis
    using r py_eq_roundtrip [of v] by blast
qed

text \<open>
  Claim C8, as stated, fails at the input \<open>{"extra": float("nan")}\<close>: validation keeps
  the unknown key, the file holds \<open>NaN\<close>, and what is read back is another NaN.
\<close>

theorem validate_config_round_trip_nan:
  "validate_config demo_token demo_nan = Inr demo_nan_validated
   \<and> validate_config demo_token2 (json_roundtrip demo_nan_validated) = Inr demo_nan_reloaded
   \<and> \<not> py_eq demo_nan_reloaded demo_nan_validated"
  by code_simp

theorem validate_config_round_trip_witness:
  "validate_config demo_token demo_cfg = Inr demo_validated
   \<and> \<not> holds_foreign_nan demo_cfg
   \<and> validate_config demo_token2 (json_roundtrip demo_validated) = Inr demo_validated
   \<and> py_eq (json_roundtrip demo_validated) demo_validated
   \<and> field demo_validated ''app'' ''secret_key'' \<noteq> None
   \<and> validate_config demo_token2 demo_validated = Inr demo_validated"
  using validate_config_round_trip [of demo_token demo_cfg demo_validated demo_token2]
    validate_config_round_trip [of demo_token demo_validated demo_validated demo_token2]
    validate_demo validate_demo_validated demo_validated_secret_key demo_no_nan
  by simp

subsection \<open>Ensuring AirPrint\<close>

lemma run_cmd_trace:
  "av \<noteq> [] \<Longrightarrow> snd (run_cmd os av t c e tr) = tr @ [Subprocess av t]"
  by (simp add: run_cmd_def Let_def split: child.splits)

lemma cups_available_trace:
  "snd (cups_available os tr) = tr @ [Subprocess [''lpstat'', ''-r''] 6]"
proof -
  have "snd (cups_available os tr)
      = snd (run_cmd os [''lpstat'', ''-r''] safe_timeout False None tr)"
    by (simp add: cups_available_def split: prod.splits sum.splits)
  then show ?thesis by (simp add: run_cmd_trace safe_timeout_def)
qed

lemma ensure_airprint_trace:
  "snd (ensure_airprint_via_root_helper os t tr) =
     (if path_exists os tr (ROOT_HELPER os)
      then tr @ [Subprocess [''sudo'', ''-n'', ROOT_HELPER os, ''ensure-airprint''] t]
      else tr)"
proof (cases "path_exists os tr (ROOT_HELPER os)")
  case True
  then have "snd (ensure_airprint_via_root_helper os t tr)
      = snd (run_cmd os [''sudo'', ''-n'', ROOT_HELPER os, ''ensure-airprint''] t True None tr)"
    by (simp add: ensure_airprint_via_root_helper_def split: prod.splits sum.splits)
  with True show ?thesis by (simp add: run_cmd_trace)
next
  case False
  then show ?thesis by (simp add: ensure_airprint_via_root_helper_def)
qed

lemma api_airprint_ensure_trace:
  assumes "get_section (PP_CFG a) ''security'' = Inr s"
    and "\<not> truthy (fmlookup s ''require_token'')
         \<or> (\<exists>t. expected_token s = Inr t \<and> t \<noteq> [] \<and> provided_token req = Some t)"
  shows "snd (api_airprint_ensure os a req tr) = snd (ensure_airprint_via_root_helper os 45 tr)"
  using assms
  by (auto simp: api_airprint_ensure_def require_token_def split: prod.splits sum.splits)

lemma api_status_airprint_held:
  assumes "get_section (PP_CFG a) ''airprint'' = Inr sec" "truthy (fmlookup sec ''auto_enable'')"
    "cups_available os tr = (Inr True, tr1)" "lock_held os tr1"
  shows "api_status_airprint os names a tr = (Inr a, tr1)"
  using assms by (simp add: api_status_airprint_def Let_def)

lemma api_status_airprint_free:
  assumes "get_section (PP_CFG a) ''airprint'' = Inr sec" "truthy (fmlookup sec ''auto_enable'')"
    "cups_available os tr = (Inr True, tr1)" "\<not> lock_held os tr1"
    "join '','' (sort (filter (\<lambda>n. n \<noteq> []) names)) \<noteq> PP_AIRPRINT_LAST_SIG a
     \<or> 600 < fsub (monotonic os tr1) (PP_AIRPRINT_LAST_ENSURE a)"
  shows "\<exists>a'. api_status_airprint os names a tr =
     (Inr a', snd (ensure_airprint_via_root_helper os 45 (tr1 @ [LockAcquire])) @ [LockRelease])"
proof -
  obtain r tr2 where e: "ensure_airprint_via_root_helper os 45 (tr1 @ [LockAcquire]) = (r, tr2)"
    by (cases "ensure_airprint_via_root_helper os 45 (tr1 @ [LockAcquire])")
  show ?thesis
    using assms e
    by (cases r) (auto simp: api_status_airprint_def Let_def)
qed

lemma demo_airprint_section:
  "get_section (PP_CFG demo_app) ''airprint'' = Inr (fmap_of_list [(''auto_enable'', JBool True)])"
  "truthy (fmlookup (fmap_of_list [(''auto_enable'', JBool True)]) ''auto_enable'')"
  "get_section (PP_CFG demo_app) ''security''
     = Inr (fmap_of_list [(''require_token'', JBool False), (''token'', JStr [])])"
  "\<not> truthy (fmlookup (fmap_of_list [(''require_token'', JBool False), (''token'', JStr [])])
        ''require_token'')"
  by code_simp+

lemma demo_cups:
  "cups_available demo_locked [] = (Inr True, [Subprocess [''lpstat'', ''-r''] 6])"
  "cups_available demo_helper [] = (Inr True, [Subprocess [''lpstat'', ''-r''] 6])"
  by code_simp+

lemma demo_lock:
  "lock_held demo_locked [Subprocess [''lpstat'', ''-r''] 6]"
  "\<not> lock_held demo_helper [Subprocess [''lpstat'', ''-r''] 6]"
  "join '','' (sort (filter (\<lambda>n. n \<noteq> []) [''HP''])) \<noteq> PP_AIRPRINT_LAST_SIG demo_app"
  by code_simp+

lemma demo_root_helper:
  "ROOT_HELPER demo_helper = ''/usr/local/sbin/printerpal-root''"
  "ROOT_HELPER demo_locked = ''/usr/local/sbin/printerpal-root''"
  "path_exists demo_helper [Subprocess [''lpstat'', ''-r''] 6, LockAcquire]
     ''/usr/local/sbin/printerpal-root''"
  "path_exists demo_locked [] ''/usr/local/sbin/printerpal-root''"
  by code_simp+

text \<open>
  Claim C9, amended. Take a status request that finds automatic AirPrint enabled
  and CUPS available; up to here it has run \<open>lpstat -r\<close> and nothing else. When the lock is
  held, it skips the ensure: no helper process is started, nothing waits, no exception is
  raised, and the state is unchanged. When the lock is free and an ensure is due, it takes
  the lock, runs the helper once (not at all when the helper is not installed) and releases
  the lock, whether the helper succeeded or not. The explicit trigger
  \<open>POST /api/airprint/ensure\<close>, once the request has passed the token check, never looks at
  the lock: it runs the helper whenever the helper is installed.
\<close>

theorem api_status_airprint_guard:
  "get_section (PP_CFG a) ''airprint'' = Inr sec \<Longrightarrow> truthy (fmlookup sec ''auto_enable'') \<Longrightarrow>
   cups_available os tr = (Inr True, tr1) \<Longrightarrow>
     tr1 = tr @ [Subprocess [''lpstat'', ''-r''] 6]
     \<and> (lock_held os tr1 \<longrightarrow> api_status_airprint os names a tr = (Inr a, tr1))
     \<and> (\<not> lock_held os tr1
          \<and> (join '','' (sort (filter (\<lambda>n. n \<noteq> []) names)) \<noteq> PP_AIRPRINT_LAST_SIG a
              \<or> 600 < fsub (monotonic os tr1) (PP_AIRPRINT_LAST_ENSURE a)) \<longrightarrow>
         (\<exists>a'. api_status_airprint os names a tr =
            (Inr a',
             tr1 @ [LockAcquire]
             @ (if path_exists os (tr1 @ [LockAcquire]) (ROOT_HELPER os)
                then [Subprocess [''sudo'', ''-n'', ROOT_HELPER os, ''ensure-airprint''] 45]
                else [])
             @ [LockRelease])))
     \<and> (get_section (PP_CFG a) ''security'' = Inr s
          \<and> (\<not> truthy (fmlookup s ''require_token'')
              \<or> (\<exists>t. expected_token s = Inr t \<and> t \<noteq> [] \<and> provided_token req = Some t)) \<longrightarrow>
         snd (api_airprint_ensure os a req tr') =
           (if path_exists os tr' (ROOT_HELPER os)
            then tr' @ [Subprocess [''sudo'', ''-n'', ROOT_HELPER os, ''ensure-airprint''] 45]
            else tr'))"
proof -
  assume sec: "get_section (PP_CFG a) ''airprint'' = Inr sec"
    and auto: "truthy (fmlookup sec ''auto_enable'')"
    and cups: "cups_available os tr = (Inr True, tr1)"
  have 1: "tr1 = tr @ [Subprocess [''lpstat'', ''-r''] 6]"
    using cups_available_trace [of os tr] cups by simp
  have 2: "lock_held os tr1 \<longrightarrow> api_status_airprint os names a tr = (Inr a, tr1)"
    using api_status_airprint_held [OF sec auto cups] by blast
  have 3: "\<not> lock_held os tr1
          \<and> (join '','' (sort (filter (\<lambda>n. n \<noteq> []) names)) \<noteq> PP_AIRPRINT_LAST_SIG a
              \<or> 600 < fsub (monotonic os tr1) (PP_AIRPRINT_LAST_ENSURE a)) \<longrightarrow>
         (\<exists>a'. api_status_airprint os names a tr =
            (Inr a',
             tr1 @ [LockAcquire]
             @ (if path_exists os (tr1 @ [LockAcquire]) (ROOT_HELPER os)
                then [Subprocess [''sudo'', ''-n'', ROOT_HELPER os, ''ensure-airprint''] 45]
                else [])
             @ [LockRelease]))"
  proof
    assume "\<not> lock_held os tr1
          \<and> (join '','' (sort (filter (\<lambda>n. n \<noteq> []) names)) \<noteq> PP_AIRPRINT_LAST_SIG a
              \<or> 600 < fsub (monotonic os tr1) (PP_AIRPRINT_LAST_ENSURE a))"
    then obtain a' where "api_status_airprint os names a tr =
       (Inr a', snd (ensure_airprint_via_root_helper os 45 (tr1 @ [LockAcquire])) @ [LockRelease])"
      using api_status_airprint_free [OF sec auto cups] by blast
    then show "\<exists>a'. api_status_airprint os names a tr =
            (Inr a',
             tr1 @ [LockAcquire]
             @ (if path_exists os (tr1 @ [LockAcquire]) (ROOT_HELPER os)
                then [Subprocess [''sudo'', ''-n'', ROOT_HELPER os, ''ensure-airprint''] 45]
                else [])
             @ [LockRelease])"
      by (simp add: ensure_airprint_trace)
  qed
  have 4: "get_section (PP_CFG a) ''security'' = Inr s
          \<and> (\<not> truthy (fmlookup s ''require_token'')
              \<or> (\<exists>t. expected_token s = Inr t \<and> t \<noteq> [] \<and> provided_token req = Some t)) \<longrightarrow>
         snd (api_airprint_ensure os a req tr') =
           (if path_exists os tr' (ROOT_HELPER os)
            then tr' @ [Subprocess [''sudo'', ''-n'', ROOT_HELPER os, ''ensure-airprint''] 45]
            else tr')"
    using api_airprint_ensure_trace [of a s req os tr'] ensure_airprint_trace [of os 45 tr']
    by simp
  from 1 2 3 4 show ?thesis by blast
qed

text \<open>
  Claim C9, as stated, fails for the explicit trigger: while another thread holds the lock,
  which only a status request does, and only around its own ensure, the trigger starts the
  helper a second time.
\<close>

theorem api_airprint_ensure_while_locked:
  "lock_held demo_locked []
   \<and> api_airprint_ensure demo_locked demo_app demo_request []
     = (Inr (Jsonify (fmap_of_list [(''ok'', JBool True),
                                    (''output'', JStr ''ok'')]) 200),
        [Subprocess [''sudo'', ''-n'', ''/usr/local/sbin/printerpal-root'', ''ensure-airprint''] 45])"
  by code_simp

theorem api_status_airprint_guard_witness:
  "api_status_airprint demo_locked [''HP''] demo_app []
     = (Inr demo_app, [Subprocess [''lpstat'', ''-r''] 6])
   \<and> (\<exists>a'. api_status_airprint demo_helper [''HP''] demo_app [] =
        (Inr a',
         [Subprocess [''lpstat'', ''-r''] 6, LockAcquire,
          Subprocess [''sudo'', ''-n'', ''/usr/local/sbin/printerpal-root'', ''ensure-airprint''] 45,
          LockRelease]))
   \<and> snd (api_airprint_ensure demo_locked demo_app demo_request []) =
       [Subprocess [''sudo'', ''-n'', ''/usr/local/sbin/printerpal-root'', ''ensure-airprint''] 45]"
proof -
  note held = api_status_airprint_guard [OF demo_airprint_section(1,2) demo_cups(1),
      where names = "[''HP'']" and req = demo_request and tr' = "[]"
        and s = "fmap_of_list [(''require_token'', JBool False), (''token'', JStr [])]"]
  note free = api_status_airprint_guard [OF demo_airprint_section(1,2) demo_cups(2),
      where names = "[''HP'']" and req = demo_request and tr' = "[]"
        and s = "fmap_of_list [(''require_token'', JBool False), (''token'', JStr [])]"]
  from held demo_lock(1)
  have a: "api_status_airprint demo_locked [''HP''] demo_app []
     = (Inr demo_app, [Subprocess [''lpstat'', ''-r''] 6])"
    by blast
  from free demo_lock(2,3)
  have "\<exists>a'. api_status_airprint demo_helper [''HP''] demo_app [] =
        (Inr a',
         [Subprocess [''lpstat'', ''-r''] 6] @ [LockAcquire]
         @ (if path_exists demo_helper ([Subprocess [''lpstat'', ''-r''] 6] @ [LockAcquire])
                 (ROOT_HELPER demo_helper)
            then [Subprocess [''sudo'', ''-n'', ROOT_HELPER demo_helper, ''ensure-airprint''] 45]
            else [])
         @ [LockRelease])"
    by blast
  then have b: "\<exists>a'. api_status_airprint demo_helper [''HP''] demo_app [] =
        (Inr a',
         [Subprocess [''lpstat'', ''-r''] 6, LockAcquire,
          Subprocess [''sudo'', ''-n'', ''/usr/local/sbin/printerpal-root'', ''ensure-airprint''] 45,
          LockRelease])"
    by (simp add: demo_root_helper)
  from held demo_airprint_section(3,4)
  have "snd (api_airprint_ensure demo_locked demo_app demo_request []) =
       (if path_exists demo_locked [] (ROOT_HELPER demo_locked)
        then [] @ [Subprocess [''sudo'', ''-n'', ROOT_HELPER demo_locked, ''ensure-airprint''] 45]
        else [])"
    by blast
  then have c: "snd (api_airprint_ensure demo_locked demo_app demo_request []) =
       [Subprocess [''sudo'', ''-n'', ''/usr/local/sbin/printerpal-root'', ''ensure-airprint''] 45]"
    by (simp add: demo_root_helper)
  from a b c show ?thesis by blast
qed

end
